theory Spec2Isabelle
  imports Main "HOL-Library.Sublist"
begin

section \<open>Values shared by the hook executor and the serialization facade\<close>

text \<open>
  A context is a Python dict with string keys whose values are what \<^verbatim>\<open>json.loads\<close>
  can produce.  A dict is kept as an association list in insertion order; a Python
  \<^verbatim>\<open>str\<close> is a \<open>string\<close>, one \<open>char\<close> for each code point below 256.  Numbers are
  Python ints: a non-integer number (a Python float) has no counterpart here, so the
  values of this development are the float-free ones.
\<close>

datatype json =
    JNull
  | JBool bool
  | JInt int
  | JString string
  | JArray "json list"
  | JObject "(string \<times> json) list"

type_synonym context_dict = "(string \<times> json) list"

text \<open>Python truthiness of a decoded value, as the operator \<^verbatim>\<open>and\<close> reads it.\<close>

fun truthy :: "json \<Rightarrow> bool" where
  "truthy JNull = False"
| "truthy (JBool b) = b"
| "truthy (JInt n) = (n \<noteq> 0)"
| "truthy (JString s) = (s \<noteq> [])"
| "truthy (JArray xs) = (xs \<noteq> [])"
| "truthy (JObject kvs) = (kvs \<noteq> [])"

text \<open>
  Modelled from the spec: the exception classes of \<^verbatim>\<open>cookiecutter.exceptions\<close>, a module
  that the sources import and that is missing from them.  Each exception carries its
  message; the classes are the five of the specification's taxonomy, none of them a
  \<^verbatim>\<open>ValueError\<close>.  \<open>ValueError\<close> is Python's own.
\<close>

datatype exn =
    FailedHookException string
  | ValueError
  | InvalidType string
  | InvalidSerializerType string
  | UnknownSerializerType string
  | BadSerializedStringFormat string

section \<open>cookiecutter/hooks.py\<close>

subsection \<open>The pattern \<^verbatim>\<open>(\{.*\})\<close> under \<^verbatim>\<open>re.findall\<close>\<close>

text \<open>
  \<^verbatim>\<open>re.findall\<close> tries the pattern at each position from the left and resumes after the end
  of a match.  At an opening brace the greedy \<^verbatim>\<open>.*\<close> first runs to the end of the line
  (the dot matches every character but the line feed) and then gives characters back
  until a closing brace follows: \<open>greedy_close\<close> is given the text after the opening brace
  and returns what the dot-star and the closing brace matched, with the text left over.
\<close>

definition greedy_close :: "string \<Rightarrow> (string \<times> string) option" where
  "greedy_close cs =
     (let line = takeWhile (\<lambda>c. c \<noteq> CHR 0x0A) cs;
          n = length (dropWhile (\<lambda>c. c \<noteq> CHR ''}'') (rev line))
      in if n = 0 then None else Some (take n cs, drop n cs))"

function findall_braces :: "string \<Rightarrow> string list" where
  "findall_braces [] = []"
| "findall_braces (c # cs) =
     (if c = CHR ''{'' then
        (case greedy_close cs of
           Some (m, rest) \<Rightarrow> (c # m) # findall_braces rest
         | None \<Rightarrow> findall_braces cs)
      else findall_braces cs)"
  by pat_completeness auto
termination
  by (relation "measure length") (auto simp: greedy_close_def Let_def split: if_splits)

subsection \<open>The world outside the module\<close>

text \<open>
  What a call of the module reads from its surroundings: the file system under the
  current directory, the interpreter, the template engine, the child process and the
  \<^verbatim>\<open>json\<close> library.  Each field is the outcome of the library call named beside it.
  The module changes its surroundings in one way that the child process can see: it
  writes the rendered hook.  The files written so far are handed to \<open>popen\<close>, so that
  the child's result may depend on them.  \<^verbatim>\<open>utils.make_executable\<close>, of a module that is
  not among the sources, changes the mode of the script only.
  Library calls that fail for reasons outside the program (an unreadable directory, a
  missing interpreter) are not part of the model; the two failures that the module
  itself handles, \<^verbatim>\<open>UnicodeDecodeError\<close> and the decoder's error, both of them
  \<^verbatim>\<open>ValueError\<close>s, are the \<open>None\<close> of \<open>bytes_decode\<close> and \<open>json_loads\<close>.
\<close>

record proc_result =
  stdout :: string
  stderr :: string
  exit_status :: int

record env =
  isdir_hooks :: bool                                \<comment> \<open>\<^verbatim>\<open>os.path.isdir('hooks')\<close>\<close>
  listdir_hooks :: "string list"                     \<comment> \<open>\<^verbatim>\<open>os.listdir('hooks')\<close>\<close>
  abspath :: "string \<Rightarrow> string"                      \<comment> \<open>\<^verbatim>\<open>os.path.abspath\<close>\<close>
  platform :: string                                 \<comment> \<open>\<^verbatim>\<open>sys.platform\<close>\<close>
  executable :: string                               \<comment> \<open>\<^verbatim>\<open>sys.executable\<close>\<close>
  read_text :: "string \<Rightarrow> string"                    \<comment> \<open>\<^verbatim>\<open>io.open(path, 'r', encoding='utf-8').read()\<close>\<close>
  jinja_render :: "string \<Rightarrow> context_dict \<Rightarrow> string"  \<comment> \<open>\<^verbatim>\<open>Template(contents).render(**context)\<close>\<close>
  temp_stem :: string                                \<comment> \<open>directory, prefix and random part picked by \<^verbatim>\<open>NamedTemporaryFile\<close>\<close>
  json_dumps :: "context_dict \<Rightarrow> string"                  \<comment> \<open>\<^verbatim>\<open>json.dumps(context).encode()\<close>\<close>
  popen :: "(string \<times> string) list \<Rightarrow> string list \<Rightarrow> bool \<Rightarrow> string \<Rightarrow> string \<Rightarrow> proc_result"
                                                     \<comment> \<open>files written before, command, shell, cwd, stdin: \<^verbatim>\<open>communicate\<close> and \<^verbatim>\<open>wait\<close>\<close>
  bytes_decode :: "string \<Rightarrow> string option"          \<comment> \<open>\<^verbatim>\<open>bytes.decode()\<close>\<close>
  json_loads :: "string \<Rightarrow> json option"              \<comment> \<open>\<^verbatim>\<open>json.loads\<close>\<close>

subsection \<open>Path functions of \<^verbatim>\<open>posixpath\<close>\<close>

text \<open>\<^verbatim>\<open>str.rfind\<close> for a single character: the last index, or \<open>-1\<close>.\<close>

definition rfind :: "string \<Rightarrow> char \<Rightarrow> int" where
  "rfind p c =
     (if c \<in> set p then int (length p) - 1 - int (length (takeWhile (\<lambda>x. x \<noteq> c) (rev p)))
      else - 1)"

definition basename :: "string \<Rightarrow> string" where
  "basename p = drop (nat (rfind p CHR ''/'' + 1)) p"

text \<open>
  \<^verbatim>\<open>genericpath._splitext\<close>: the extension starts at the last dot after the last
  separator, unless only dots stand between that separator and that dot.
\<close>

function skip_leading_dots :: "string \<Rightarrow> nat \<Rightarrow> nat \<Rightarrow> (string \<times> string) option" where
  "skip_leading_dots p filenameIndex dotIndex =
     (if filenameIndex < dotIndex then
        (if take 1 (drop filenameIndex p) \<noteq> ''.'' then Some (take dotIndex p, drop dotIndex p)
         else skip_leading_dots p (filenameIndex + 1) dotIndex)
      else None)"
  by pat_completeness auto
termination
  by (relation "measure (\<lambda>(p, i, d). d - i)") auto

definition splitext :: "string \<Rightarrow> string \<times> string" where
  "splitext p =
     (let sepIndex = rfind p CHR ''/'';
          dotIndex = rfind p CHR ''.''
      in if dotIndex > sepIndex then
           (case skip_leading_dots p (nat (sepIndex + 1)) (nat dotIndex) of
              Some r \<Rightarrow> r
            | None \<Rightarrow> (p, []))
         else (p, []))"

definition path_join :: "string \<Rightarrow> string \<Rightarrow> string" where
  "path_join a b =
     (if take 1 b = ''/'' then b
      else if a = [] \<or> take 1 (rev a) = ''/'' then a @ b
      else a @ ''/'' @ b)"

subsection \<open>The module's functions\<close>

declare skip_leading_dots.simps [simp del]

definition HOOKS :: "string list" where
  "HOOKS = [''pre_gen_project'', ''post_gen_project'']"

definition EXIT_SUCCESS :: int where
  "EXIT_SUCCESS = 0"

text \<open>The body of the loop of \<^verbatim>\<open>find_hooks\<close>, for one directory entry.\<close>

definition find_hooks_step :: "env \<Rightarrow> string \<Rightarrow> (string \<rightharpoonup> string) \<Rightarrow> (string \<rightharpoonup> string)" where
  "find_hooks_step e f r =
     (let basename = fst (splitext (basename f))
      in if basename \<in> set HOOKS then r(basename \<mapsto> abspath e (path_join ''hooks'' f)) else r)"

definition find_hooks :: "env \<Rightarrow> (string \<rightharpoonup> string)" where
  "find_hooks e =
     (if \<not> isdir_hooks e then Map.empty
      else fold (find_hooks_step e) (listdir_hooks e) Map.empty)"

text \<open>\<^verbatim>\<open>"%d" % n\<close>: the decimal digits, with a minus sign for a negative number.\<close>

fun show_nat :: "nat \<Rightarrow> string" where
  "show_nat n =
     (if n < 10 then [''0123456789'' ! n]
      else show_nat (n div 10) @ [''0123456789'' ! (n mod 10)])"

declare show_nat.simps [simp del]

definition show_int :: "int \<Rightarrow> string" where
  "show_int i = (if i < 0 then ''-'' @ show_nat (nat (- i)) else show_nat (nat i))"

definition endswith :: "string \<Rightarrow> string \<Rightarrow> bool" where
  "endswith s suf = (length suf \<le> length s \<and> drop (length s - length suf) s = suf)"

definition startswith :: "string \<Rightarrow> string \<Rightarrow> bool" where
  "startswith s pre = (take (length pre) s = pre)"

definition get_script_command :: "env \<Rightarrow> string \<Rightarrow> string list" where
  "get_script_command e script_path =
     (if endswith script_path ''.py'' then [executable e, script_path] else [script_path])"

definition failed_hook_message :: "int \<Rightarrow> string" where
  "failed_hook_message st = ''Hook script failed (exit status: '' @ show_int st @ '')''"

definition do_run_script ::
  "env \<Rightarrow> (string \<times> string) list \<Rightarrow> string \<Rightarrow> string \<Rightarrow> string \<Rightarrow> exn + proc_result" where
  "do_run_script e written script_path cwd serialized_context =
     (let run_thru_shell = startswith (platform e) ''win'';
          proc = popen e written (get_script_command e script_path) run_thru_shell cwd
                   serialized_context
      in if exit_status proc \<noteq> EXIT_SUCCESS
         then Inl (FailedHookException (failed_hook_message (exit_status proc)))
         else Inr proc)"

definition run_hook_in_place :: "context_dict \<Rightarrow> bool" where
  "run_hook_in_place ctx =
     (case map_of ctx ''_run_hook_in_place'' of None \<Rightarrow> False | Some v \<Rightarrow> truthy v)"

text \<open>
  \<^verbatim>\<open>__create_renderable_hook\<close>: the name of the temporary file, which ends with the
  extension of the hook, and the file written, the rendered text of the hook.
\<close>

definition create_renderable_hook ::
  "env \<Rightarrow> string \<Rightarrow> context_dict \<Rightarrow> string \<times> (string \<times> string) list" where
  "create_renderable_hook e script_path ctx =
     (let extension = snd (splitext script_path);
          contents = read_text e script_path;
          output = jinja_render e contents ctx;
          name = temp_stem e @ extension
      in (name, [(name, output)]))"

text \<open>The first statement of \<^verbatim>\<open>run_script_with_context\<close>: the script to run, and the files written.\<close>

definition hook_script :: "env \<Rightarrow> string \<Rightarrow> context_dict \<Rightarrow> string \<times> (string \<times> string) list" where
  "hook_script e script_path ctx =
     (if run_hook_in_place ctx then (script_path, [])
      else create_renderable_hook e script_path ctx)"

text \<open>
  The rest of the \<^verbatim>\<open>try\<close> block, given the outcome of \<^verbatim>\<open>__do_run_script\<close>:
  \<^verbatim>\<open>FailedHookException\<close> passes through, a \<^verbatim>\<open>ValueError\<close> from the decoding of the
  output or from \<^verbatim>\<open>json.loads\<close> gives the context back.
\<close>

definition context_from_result :: "env \<Rightarrow> context_dict \<Rightarrow> exn + proc_result \<Rightarrow> exn + json" where
  "context_from_result e ctx outcome =
     (case outcome of
        Inl ValueError \<Rightarrow> Inr (JObject ctx)
      | Inl err \<Rightarrow> Inl err
      | Inr result \<Rightarrow>
          (case bytes_decode e (stdout result) of
             None \<Rightarrow> Inr (JObject ctx)
           | Some text \<Rightarrow>
               (let json_search = findall_braces text
                in if json_search \<noteq> [] then
                     (case json_loads e (last json_search) of
                        None \<Rightarrow> Inr (JObject ctx)
                      | Some v \<Rightarrow> Inr v)
                   else Inr (JObject ctx))))"

definition run_script_with_context :: "env \<Rightarrow> string \<Rightarrow> string \<Rightarrow> context_dict \<Rightarrow> exn + json" where
  "run_script_with_context e script_path cwd ctx =
     (let (script, written) = hook_script e script_path ctx
      in context_from_result e ctx (do_run_script e written script cwd (json_dumps e ctx)))"

text \<open>The child process that \<^verbatim>\<open>run_script_with_context\<close> starts and waits for.\<close>

definition hook_process :: "env \<Rightarrow> string \<Rightarrow> string \<Rightarrow> context_dict \<Rightarrow> proc_result" where
  "hook_process e script_path cwd ctx =
     (let (script, written) = hook_script e script_path ctx
      in popen e written (get_script_command e script) (startswith (platform e) ''win'') cwd
           (json_dumps e ctx))"

definition run_hook :: "env \<Rightarrow> string \<Rightarrow> string \<Rightarrow> context_dict \<Rightarrow> exn + json" where
  "run_hook e hook_name project_dir ctx =
     (case find_hooks e hook_name of
        None \<Rightarrow> Inr (JObject ctx)
      | Some script \<Rightarrow> run_script_with_context e script project_dir ctx)"


text \<open>
  Whether a text holds a brace-delimited piece at all: a closing brace somewhere after an
  opening one.
\<close>

definition has_braces :: "string \<Rightarrow> bool" where
  "has_braces s = (CHR ''}'' \<in> set (dropWhile (\<lambda>c. c \<noteq> CHR ''{'') s))"

text \<open>
  The lines of a text, and what the pattern finds on one line: the span from the first
  opening brace to the last closing brace after it.  They serve to say what
  \<open>findall_braces\<close> returns.
\<close>

function split_lines :: "string \<Rightarrow> string list" where
  "split_lines s =
     (case dropWhile (\<lambda>c. c \<noteq> CHR 0x0A) s of
        [] \<Rightarrow> [s]
      | nl # rest \<Rightarrow> takeWhile (\<lambda>c. c \<noteq> CHR 0x0A) s # split_lines rest)"
  by pat_completeness auto
termination
proof (relation "measure length")
  show "wf (measure length)" by simp
next
  fix s :: string and nl rest
  assume "dropWhile (\<lambda>c. c \<noteq> CHR 0x0A) s = nl # rest"
  then have "length (nl # rest) \<le> length s"
    by (metis length_dropWhile_le)
  then show "(rest, s) \<in> measure length" by simp
qed

declare split_lines.simps [simp del]

definition brace_span :: "string \<Rightarrow> string" where
  "brace_span line =
     rev (dropWhile (\<lambda>c. c \<noteq> CHR ''}'') (rev (dropWhile (\<lambda>c. c \<noteq> CHR ''{'') line)))"

definition line_match :: "string \<Rightarrow> string list" where
  "line_match line = (if has_braces line then [brace_span line] else [])"

section \<open>A reference JSON codec\<close>

text \<open>
  The \<^verbatim>\<open>json\<close> library is not part of the sources.  The theorems about the hook executor
  hold for every decoder (the field \<open>json_loads\<close>); the concrete runs below need one, and
  so does the default serializer of the facade.  \<open>json_loads_ref\<close> follows
  \<^verbatim>\<open>json.decoder\<close> of the standard library on float-free texts: white space, the three
  literals, integers, strings with their escapes, arrays and objects, a repeated key
  keeping its first place and its last value.  A fraction, an exponent, \<^verbatim>\<open>NaN\<close>,
  \<^verbatim>\<open>Infinity\<close> and an escape of a code point from 256 on give \<open>None\<close> here although Python
  decodes them; no statement below evaluates the decoder on such a text.
  \<open>json_dumps_ref\<close> is \<^verbatim>\<open>json.dumps\<close> with its default separators and \<^verbatim>\<open>ensure_ascii\<close>.
\<close>

definition ws_char :: "char \<Rightarrow> bool" where
  "ws_char c = (c = CHR '' '' \<or> c = CHR 0x09 \<or> c = CHR 0x0A \<or> c = CHR 0x0D)"

definition skip_ws :: "string \<Rightarrow> string" where
  "skip_ws s = dropWhile ws_char s"

definition hex_value :: "char \<Rightarrow> nat option" where
  "hex_value c =
     (if c \<in> set ''0123456789'' then Some (of_char c - 48)
      else if c \<in> set ''abcdef'' then Some (of_char c - 87)
      else if c \<in> set ''ABCDEF'' then Some (of_char c - 55)
      else None)"

definition unicode_escape :: "string \<Rightarrow> char option" where
  "unicode_escape ds =
     (case map hex_value ds of
        [Some a, Some b, Some c, Some d] \<Rightarrow>
          (if a = 0 \<and> b = 0 then Some (char_of (16 * c + d)) else None)
      | _ \<Rightarrow> None)"

definition unescape :: "char \<Rightarrow> char option" where
  "unescape c =
     (if c = CHR 0x22 \<or> c = CHR 0x5C \<or> c = CHR ''/'' then Some c
      else if c = CHR ''b'' then Some (CHR 0x08)
      else if c = CHR ''f'' then Some (CHR 0x0C)
      else if c = CHR ''n'' then Some (CHR 0x0A)
      else if c = CHR ''r'' then Some (CHR 0x0D)
      else if c = CHR ''t'' then Some (CHR 0x09)
      else None)"

text \<open>The text after an opening quote, up to the closing one.\<close>

function scan_string :: "string \<Rightarrow> (string \<times> string) option" where
  "scan_string [] = None"
| "scan_string (c # cs) =
     (if c = CHR 0x22 then Some ([], cs)
      else if c = CHR 0x5C then
        (case cs of
           [] \<Rightarrow> None
         | e # cs' \<Rightarrow>
             (if e = CHR ''u'' then
                (case unicode_escape (take 4 cs') of
                   None \<Rightarrow> None
                 | Some ch \<Rightarrow>
                     (if length cs' < 4 then None
                      else map_option (\<lambda>(t, r). (ch # t, r)) (scan_string (drop 4 cs'))))
              else
                (case unescape e of
                   None \<Rightarrow> None
                 | Some ch \<Rightarrow> map_option (\<lambda>(t, r). (ch # t, r)) (scan_string cs'))))
      else if (of_char c :: nat) < 32 then None
      else map_option (\<lambda>(t, r). (c # t, r)) (scan_string cs))"
  by pat_completeness auto
termination
  by (relation "measure length") auto

definition digit_char :: "char \<Rightarrow> bool" where
  "digit_char c = (c \<in> set ''0123456789'')"

definition read_nat :: "string \<Rightarrow> nat" where
  "read_nat ds = foldl (\<lambda>n c. 10 * n + (of_char c - 48)) 0 ds"

text \<open>
  A number: an optional minus sign, then a single zero or a run of digits that does not
  start with zero.  What follows is left to the caller, but a fraction or an exponent
  there would make the number a float.
\<close>

definition float_tail :: "string \<Rightarrow> bool" where
  "float_tail r =
     (case r of
        [] \<Rightarrow> False
      | c # r' \<Rightarrow>
          (if c = CHR ''.'' then (case r' of [] \<Rightarrow> False | d # _ \<Rightarrow> digit_char d)
           else if c = CHR ''e'' \<or> c = CHR ''E'' then
             (case r' of
                [] \<Rightarrow> False
              | d # r'' \<Rightarrow>
                  (if d = CHR ''+'' \<or> d = CHR ''-'' then (case r'' of [] \<Rightarrow> False | x # _ \<Rightarrow> digit_char x)
                   else digit_char d))
           else False))"

definition scan_number :: "string \<Rightarrow> (json \<times> string) option" where
  "scan_number s =
     (let neg = (take 1 s = ''-'');
          body = (if neg then drop 1 s else s);
          ds = (if take 1 body = ''0'' then ''0'' else takeWhile digit_char body);
          r = drop (length ds) body
      in if ds = [] \<or> float_tail r then None
         else Some (JInt (if neg then - int (read_nat ds) else int (read_nat ds)), r))"

text \<open>\<^verbatim>\<open>dict(pairs)\<close>: a key seen before keeps its place and takes the new value.\<close>

definition dict_set :: "string \<Rightarrow> json \<Rightarrow> (string \<times> json) list \<Rightarrow> (string \<times> json) list" where
  "dict_set k v kvs =
     (if k \<in> fst ` set kvs then map (\<lambda>(k', v'). if k' = k then (k', v) else (k', v')) kvs
      else kvs @ [(k, v)])"

text \<open>
  The recursive descent of the decoder.  The first argument bounds the number of nested
  calls; \<open>json_loads_ref\<close> starts it above the length of the text, and every call consumes
  a character before it descends.
\<close>

fun parse_value :: "nat \<Rightarrow> string \<Rightarrow> (json \<times> string) option"
  and parse_array_items :: "nat \<Rightarrow> string \<Rightarrow> json list \<Rightarrow> (json \<times> string) option"
  and parse_object_items :: "nat \<Rightarrow> string \<Rightarrow> (string \<times> json) list \<Rightarrow> (json \<times> string) option"
where
  "parse_value 0 s = None"
| "parse_value (Suc n) s =
     (case s of
        [] \<Rightarrow> None
      | c # cs \<Rightarrow>
          (if c = CHR 0x22 then map_option (\<lambda>(t, r). (JString t, r)) (scan_string cs)
           else if c = CHR ''{'' then
             (case skip_ws cs of
                [] \<Rightarrow> None
              | d # ds \<Rightarrow> if d = CHR ''}'' then Some (JObject [], ds)
                          else parse_object_items n (d # ds) [])
           else if c = CHR ''['' then
             (case skip_ws cs of
                [] \<Rightarrow> None
              | d # ds \<Rightarrow> if d = CHR '']'' then Some (JArray [], ds)
                          else parse_array_items n (d # ds) [])
           else if take 4 s = ''null'' then Some (JNull, drop 4 s)
           else if take 4 s = ''true'' then Some (JBool True, drop 4 s)
           else if take 5 s = ''false'' then Some (JBool False, drop 5 s)
           else scan_number s))"
| "parse_array_items 0 s acc = None"
| "parse_array_items (Suc n) s acc =
     (case parse_value n s of
        None \<Rightarrow> None
      | Some (v, r) \<Rightarrow>
          (case skip_ws r of
             [] \<Rightarrow> None
           | d # ds \<Rightarrow>
               if d = CHR '']'' then Some (JArray (acc @ [v]), ds)
               else if d = CHR '','' then parse_array_items n (skip_ws ds) (acc @ [v])
               else None))"
| "parse_object_items 0 s acc = None"
| "parse_object_items (Suc n) s acc =
     (case s of
        [] \<Rightarrow> None
      | q # cs \<Rightarrow>
          (if q \<noteq> CHR 0x22 then None
           else
             (case scan_string cs of
                None \<Rightarrow> None
              | Some (key, r) \<Rightarrow>
                  (case skip_ws r of
                     [] \<Rightarrow> None
                   | colon # r1 \<Rightarrow>
                       (if colon \<noteq> CHR '':'' then None
                        else
                          (case parse_value n (skip_ws r1) of
                             None \<Rightarrow> None
                           | Some (v, r2) \<Rightarrow>
                               (case skip_ws r2 of
                                  [] \<Rightarrow> None
                                | d # ds \<Rightarrow>
                                    if d = CHR ''}'' then Some (JObject (dict_set key v acc), ds)
                                    else if d = CHR '','' then
                                      parse_object_items n (skip_ws ds) (dict_set key v acc)
                                    else None)))))))"

definition json_loads_ref :: "string \<Rightarrow> json option" where
  "json_loads_ref s =
     (case parse_value (Suc (length s)) (skip_ws s) of
        None \<Rightarrow> None
      | Some (v, r) \<Rightarrow> if skip_ws r = [] then Some v else None)"

definition hex_digit :: "nat \<Rightarrow> char" where
  "hex_digit n = ''0123456789abcdef'' ! (n mod 16)"

definition escape_char :: "char \<Rightarrow> string" where
  "escape_char c =
     (if c = CHR 0x22 then [CHR 0x5C, CHR 0x22]
      else if c = CHR 0x5C then [CHR 0x5C, CHR 0x5C]
      else if c = CHR 0x0A then [CHR 0x5C, CHR ''n'']
      else if c = CHR 0x0D then [CHR 0x5C, CHR ''r'']
      else if c = CHR 0x09 then [CHR 0x5C, CHR ''t'']
      else if c = CHR 0x08 then [CHR 0x5C, CHR ''b'']
      else if c = CHR 0x0C then [CHR 0x5C, CHR ''f'']
      else if (of_char c :: nat) < 32 \<or> (of_char c :: nat) \<ge> 127 then
        [CHR 0x5C, CHR ''u'', CHR ''0'', CHR ''0'',
         hex_digit (of_char c div 16), hex_digit (of_char c)]
      else [c])"

definition quote_string :: "string \<Rightarrow> string" where
  "quote_string s = [CHR 0x22] @ concat (map escape_char s) @ [CHR 0x22]"

definition join_comma :: "string list \<Rightarrow> string" where
  "join_comma xs = (case xs of [] \<Rightarrow> [] | x # ys \<Rightarrow> x @ concat (map (\<lambda>y. '', '' @ y) ys))"

fun json_dumps_ref :: "json \<Rightarrow> string" where
  "json_dumps_ref JNull = ''null''"
| "json_dumps_ref (JBool b) = (if b then ''true'' else ''false'')"
| "json_dumps_ref (JInt i) = show_int i"
| "json_dumps_ref (JString s) = quote_string s"
| "json_dumps_ref (JArray xs) = ''['' @ join_comma (map json_dumps_ref xs) @ '']''"
| "json_dumps_ref (JObject kvs) =
     ''{'' @ join_comma (map (\<lambda>(k, v). quote_string k @ '': '' @ json_dumps_ref v) kvs) @ ''}''"

section \<open>cookiecutter/serialization.py\<close>

text \<open>
  The module \<^verbatim>\<open>cookiecutter.serialization\<close> is not among the sources; only its tests are.
  Its classes are modelled from the specification, and the serializers of the test module
  are translated from the tests.
\<close>

text \<open>
  Modelled from the spec: the capability \<^verbatim>\<open>AbstractSerializer\<close>, missing from the sources.
  A serializer is a codec with two operations, \<open>encode\<close> from a context to a payload and
  \<open>decode\<close> from a payload to a context, and it either declares the capability or merely
  has methods of these names.  A decoder may reject a payload.
\<close>

record serializer =
  declares_AbstractSerializer :: bool
  encode :: "context_dict \<Rightarrow> string"
  decode :: "string \<Rightarrow> exn + json"

text \<open>
  Modelled from the spec: the argument of \<^verbatim>\<open>register\<close>, missing from the sources, which is
  an instance, or a class that is instantiated with no arguments.
\<close>

datatype serializer_arg = Instance serializer | Class serializer

text \<open>
  Modelled from the spec: the instance that \<^verbatim>\<open>register\<close> stores, missing from the sources:
  the instance given, or the class instantiated with no arguments.
\<close>

fun instantiate :: "serializer_arg \<Rightarrow> serializer" where
  "instantiate (Instance s) = s"
| "instantiate (Class s) = s"

text \<open>
  Modelled from the spec: the class \<^verbatim>\<open>JsonSerializer\<close>, missing from the sources, the
  default codec, whose payload is JSON object text.  It encodes and decodes with the
  reference JSON codec.
\<close>

definition JsonSerializer :: serializer where
  "JsonSerializer =
     \<lparr>declares_AbstractSerializer = True,
      encode = (\<lambda>ctx. json_dumps_ref (JObject ctx)),
      decode = (\<lambda>payload. case json_loads_ref payload of None \<Rightarrow> Inl ValueError | Some v \<Rightarrow> Inr v)\<rparr>"

text \<open>
  Modelled from the spec: the first character of a tag, \<^verbatim>\<open>[A-Za-z_]\<close>, of the tag grammar
  whose pattern in the module is missing from the sources: a letter or an underscore.
\<close>

definition tag_start :: "char \<Rightarrow> bool" where
  "tag_start c = (c \<in> set ''ABCDEFGHIJKLMNOPQRSTUVWXYZabcdefghijklmnopqrstuvwxyz_'')"

text \<open>
  Modelled from the spec: a further character of a tag, \<^verbatim>\<open>[A-Za-z0-9_.-]\<close>, of the same
  grammar: a letter, a digit, an underscore, a dot or a hyphen.
\<close>

definition tag_char :: "char \<Rightarrow> bool" where
  "tag_char c = (tag_start c \<or> c \<in> set ''0123456789.-'')"

text \<open>
  Modelled from the spec: the tag grammar \<^verbatim>\<open>[A-Za-z_][A-Za-z0-9_.-]*\<close> of the envelope,
  missing from the sources, matched against a whole tag.
\<close>

definition valid_tag :: "string \<Rightarrow> bool" where
  "valid_tag t = (case t of [] \<Rightarrow> False | c # cs \<Rightarrow> tag_start c \<and> list_all tag_char cs)"

text \<open>
  Modelled from the spec: the state of a \<^verbatim>\<open>SerializationFacade\<close>, missing from the
  sources: the registry from tags to serializer instances and the current type.
\<close>

record facade =
  serializers :: "string \<rightharpoonup> serializer"
  current_type :: string

text \<open>
  Modelled from the spec: a \<^verbatim>\<open>SerializationFacade\<close> constructed without seeds, missing
  from the sources.  It holds the default \<^verbatim>\<open>json\<close> and has \<^verbatim>\<open>json\<close> as its current type.
\<close>

definition fresh_facade :: facade where
  "fresh_facade = \<lparr>serializers = [''json'' \<mapsto> JsonSerializer], current_type = ''json''\<rparr>"

text \<open>
  Modelled from the spec: the method \<^verbatim>\<open>get_type\<close>, missing from the sources, which returns
  the current type.
\<close>

definition get_type :: "facade \<Rightarrow> string" where
  "get_type f = current_type f"

text \<open>
  Modelled from the spec: the method \<^verbatim>\<open>register\<close>, missing from the sources.  It rejects
  an object that does not declare the capability with \<^verbatim>\<open>InvalidType\<close>, validates the tag
  against the grammar and fails with \<^verbatim>\<open>InvalidSerializerType\<close> on an invalid one, both
  with the registry as it was; otherwise the tag maps to the instance from then on,
  replacing what it mapped to.  The result is the outcome and the facade afterwards.
  The specification gives no wording for the messages; the tests look for
  \<^verbatim>\<open>AbstractSerializer\<close> in the message of \<^verbatim>\<open>InvalidType\<close>.
\<close>

definition register :: "facade \<Rightarrow> string \<Rightarrow> serializer_arg \<Rightarrow> (exn + unit) \<times> facade" where
  "register f tag arg =
     (let s = instantiate arg
      in if \<not> declares_AbstractSerializer s then
           (Inl (InvalidType ''serializer must implement AbstractSerializer''), f)
         else if \<not> valid_tag tag then (Inl (InvalidSerializerType tag), f)
         else (Inr (), f\<lparr>serializers := (serializers f)(tag \<mapsto> s)\<rparr>))"

text \<open>
  Modelled from the spec: the seeding of the registry by the constructor of
  \<^verbatim>\<open>SerializationFacade\<close>, missing from the sources: each pair of the initial mapping is
  registered in turn, and the first failure ends the construction.
\<close>

fun register_all :: "facade \<Rightarrow> (string \<times> serializer_arg) list \<Rightarrow> exn + facade" where
  "register_all f [] = Inr f"
| "register_all f ((tag, arg) # rest) =
     (case register f tag arg of
        (Inl err, _) \<Rightarrow> Inl err
      | (Inr _, f') \<Rightarrow> register_all f' rest)"

text \<open>
  Modelled from the spec: the constructor of \<^verbatim>\<open>SerializationFacade\<close>, missing from the
  sources, which seeds the registry with an initial mapping in addition to the default.
\<close>

definition SerializationFacade :: "(string \<times> serializer_arg) list \<Rightarrow> exn + facade" where
  "SerializationFacade seeds = register_all fresh_facade seeds"

text \<open>
  Modelled from the spec: the method \<^verbatim>\<open>serialize\<close>, missing from the sources.  Without a
  type it uses the current type; an unregistered tag fails with
  \<^verbatim>\<open>UnknownSerializerType\<close> naming the tag; the envelope is the tag, a bar, the payload of
  the tag's serializer and a dollar sign.  The current type stays as it is.
\<close>

definition serialize :: "facade \<Rightarrow> context_dict \<Rightarrow> string option \<Rightarrow> (exn + string) \<times> facade" where
  "serialize f ctx type =
     (let tag = (case type of None \<Rightarrow> current_type f | Some t \<Rightarrow> t)
      in case serializers f tag of
           None \<Rightarrow> (Inl (UnknownSerializerType tag), f)
         | Some s \<Rightarrow> (Inr (tag @ ''|'' @ encode s ctx @ ''$''), f))"

text \<open>
  Modelled from the spec: the tag of an envelope occurrence, whose extraction is missing
  from the sources: the longest text that matches the tag grammar and ends right before
  the bar.  The argument is the text before the bar, reversed; the result is empty when
  no tag ends there.
\<close>

definition tag_before :: "string \<Rightarrow> string" where
  "tag_before rpre = dropWhile (\<lambda>c. \<not> tag_start c) (rev (takeWhile tag_char rpre))"

text \<open>
  Modelled from the spec: the search for the last occurrence, missing from the sources,
  walking back from the closing dollar sign: the first bar met that a tag precedes is the
  bar of the last occurrence, and what was walked over is its payload.
\<close>

fun find_last_bar :: "string \<Rightarrow> string \<Rightarrow> (string \<times> string) option" where
  "find_last_bar [] payload = None"
| "find_last_bar (c # rpre) payload =
     (if c = CHR ''|'' \<and> tag_before rpre \<noteq> [] then Some (tag_before rpre, payload)
      else find_last_bar rpre (c # payload))"

text \<open>
  Modelled from the spec: the extraction of the last occurrence of the envelope grammar
  (tag, bar, arbitrary payload, dollar sign) from a text, missing from the sources.  The
  payload is greedy: it ends at the last dollar sign of the text.  The occurrence is the
  last: its bar is the last bar before that dollar sign which a tag precedes.
\<close>

definition last_envelope :: "string \<Rightarrow> (string \<times> string) option" where
  "last_envelope s =
     (case dropWhile (\<lambda>c. c \<noteq> CHR ''$'') (rev s) of
        [] \<Rightarrow> None
      | dollar # rbody \<Rightarrow> find_last_bar rbody [])"

text \<open>
  Modelled from the spec: the message of \<^verbatim>\<open>BadSerializedStringFormat\<close>, missing from the
  sources, which indicates the expected form \<^verbatim>\<open>type|payload$\<close>; the tests look for its
  first words.
\<close>

definition bad_format_message :: string where
  "bad_format_message = ''Serialized string should be of the form type|payload$''"

text \<open>
  Modelled from the spec: the method \<^verbatim>\<open>deserialize\<close>, missing from the sources.  Without
  an envelope in the text it fails with \<^verbatim>\<open>BadSerializedStringFormat\<close>; with an
  unregistered tag it fails with \<^verbatim>\<open>UnknownSerializerType\<close>; on success it sets the
  current type to the tag and returns the decoded context.  A failure, also one of the
  serializer, leaves the facade as it was.
\<close>

definition deserialize :: "facade \<Rightarrow> string \<Rightarrow> (exn + json) \<times> facade" where
  "deserialize f s =
     (case last_envelope s of
        None \<Rightarrow> (Inl (BadSerializedStringFormat bad_format_message), f)
      | Some (tag, payload) \<Rightarrow>
          (case serializers f tag of
             None \<Rightarrow> (Inl (UnknownSerializerType tag), f)
           | Some ser \<Rightarrow>
               (case decode ser payload of
                  Inl err \<Rightarrow> (Inl err, f)
                | Inr ctx \<Rightarrow> (Inr ctx, f\<lparr>current_type := tag\<rparr>))))"

text \<open>
  Modelled from the spec: an envelope-shaped substring, whose pattern is missing from the
  sources.  A text holds one when a valid tag, a bar, some payload and a dollar sign
  follow one another somewhere in it.
\<close>

definition envelope_in :: "string \<Rightarrow> bool" where
  "envelope_in s = (\<exists>pre tag payload post. s = pre @ tag @ ''|'' @ payload @ ''$'' @ post \<and> valid_tag tag)"

subsection \<open>The calls of a facade, one after the other\<close>

text \<open>
  Modelled from the spec: the four public operations of \<^verbatim>\<open>SerializationFacade\<close>, missing
  from the sources, as calls with their arguments.
\<close>

datatype facade_call =
    CallRegister string serializer_arg
  | CallSerialize context_dict "string option"
  | CallDeserialize string
  | CallGetType

text \<open>
  Modelled from the spec: the facade after a call, by the operations above.
\<close>

fun facade_step :: "facade \<Rightarrow> facade_call \<Rightarrow> facade" where
  "facade_step f (CallRegister tag arg) = snd (register f tag arg)"
| "facade_step f (CallSerialize ctx type) = snd (serialize f ctx type)"
| "facade_step f (CallDeserialize s) = snd (deserialize f s)"
| "facade_step f CallGetType = f"

text \<open>
  Modelled from the spec: the tag of a call that is a successful \<^verbatim>\<open>deserialize\<close> on the
  facade it meets.
\<close>

fun deserialized_tag :: "facade \<Rightarrow> facade_call \<Rightarrow> string option" where
  "deserialized_tag f (CallDeserialize s) =
     (case deserialize f s of
        (Inr _, _) \<Rightarrow> map_option fst (last_envelope s)
      | (Inl _, _) \<Rightarrow> None)"
| "deserialized_tag f _ = None"

text \<open>
  Modelled from the spec: the tag of the last successful \<^verbatim>\<open>deserialize\<close> of a run of
  calls, or the tag given to start with.
\<close>

fun last_deserialized :: "facade \<Rightarrow> string \<Rightarrow> facade_call list \<Rightarrow> string" where
  "last_deserialized f tag [] = tag"
| "last_deserialized f tag (c # cs) =
     last_deserialized (facade_step f c)
       (case deserialized_tag f c of None \<Rightarrow> tag | Some t \<Rightarrow> t) cs"

subsection \<open>The objects of tests/test_serialization.py\<close>

text \<open>
  The two contexts of \<^verbatim>\<open>get_context\<close> and the two classes of \<^verbatim>\<open>get_serializers\<close>.
  \<^verbatim>\<open>DummySerializer\<close> extends \<^verbatim>\<open>AbstractSerializer\<close>, whose methods hand the context to
  \<^verbatim>\<open>_do_serialize\<close> and the payload to \<^verbatim>\<open>_do_deserialize\<close>; \<^verbatim>\<open>FakeSerializer\<close> extends
  \<^verbatim>\<open>object\<close> and has methods of the two names.
\<close>

definition object_context :: context_dict where
  "object_context = [(''my_key'', JString ''my_val'')]"

definition object2_context :: context_dict where
  "object2_context = [(''my_key2'', JString ''my_val2'')]"

text \<open>The operator \<^verbatim>\<open>in\<close> on two strings.\<close>

fun contains :: "string \<Rightarrow> string \<Rightarrow> bool" where
  "contains [] sub = (sub = [])"
| "contains (c # cs) sub = (take (length sub) (c # cs) = sub \<or> contains cs sub)"

definition DummySerializer :: serializer where
  "DummySerializer =
     \<lparr>declares_AbstractSerializer = True,
      encode = (\<lambda>subject. if ''my_key2'' \<in> fst ` set subject then '' serialized text''
                          else ''serialized''),
      decode = (\<lambda>string. if contains string ''serialized text'' then Inr (JObject object2_context)
                         else Inr (JObject object_context))\<rparr>"

definition FakeSerializer :: serializer where
  "FakeSerializer =
     \<lparr>declares_AbstractSerializer = False,
      encode = (\<lambda>subject. ''serialized''),
      decode = (\<lambda>string. Inr (JObject []))\<rparr>"

section \<open>Concrete surroundings\<close>

text \<open>
  A POSIX machine whose template directory is \<^verbatim>\<open>/template\<close>: the directory \<^verbatim>\<open>hooks\<close>
  holds the given files, and every child process ends with the given result.
\<close>

definition posix_env :: "string list \<Rightarrow> proc_result \<Rightarrow> env" where
  "posix_env files proc =
     \<lparr>isdir_hooks = True,
      listdir_hooks = files,
      abspath = (\<lambda>p. ''/template/'' @ p),
      platform = ''linux'',
      executable = ''/usr/bin/python'',
      read_text = (\<lambda>p. ''echo {{ cookiecutter }}''),
      jinja_render = (\<lambda>contents ctx. contents),
      temp_stem = ''/tmp/tmpq3x1'',
      json_dumps = (\<lambda>ctx. json_dumps_ref (JObject ctx)),
      popen = (\<lambda>written cmd shell cwd input. proc),
      bytes_decode = Some,
      json_loads = json_loads_ref\<rparr>"

text \<open>The same machine without a directory \<^verbatim>\<open>hooks\<close>.\<close>

definition bare_env :: env where
  "bare_env = (posix_env [] \<lparr>stdout = [], stderr = [], exit_status = 0\<rparr>)\<lparr>isdir_hooks := False\<rparr>"

text \<open>Hook runs on that machine: what the hook printed, and how it ended.\<close>

definition hook_path :: string where
  "hook_path = ''/template/hooks/post_gen_project.sh''"

definition two_objects_output :: string where
  \<open>two_objects_output = ''old {"a": 1} new {"new_key": "v"}''\<close>

definition two_objects_env :: env where
  "two_objects_env =
     posix_env [''post_gen_project.sh'']
       \<lparr>stdout = two_objects_output, stderr = [], exit_status = 0\<rparr>"

definition new_key_output :: string where
  \<open>new_key_output =
     ''Rendering done'' @ [CHR 0x0A] @ ''{"new_key": "v"}'' @ [CHR 0x0A] @ ''bye''\<close>

definition new_key_env :: env where
  "new_key_env =
     posix_env [''post_gen_project.sh'']
       \<lparr>stdout = new_key_output, stderr = [], exit_status = 0\<rparr>"


definition noisy_popen ::
  "(string \<times> string) list \<Rightarrow> string list \<Rightarrow> bool \<Rightarrow> string \<Rightarrow> string \<Rightarrow> proc_result" where
  "noisy_popen written cmd shell cwd input =
     \<lparr>stdout = new_key_output, stderr = ''warning: deprecated'', exit_status = 0\<rparr>"

definition failing_env :: env where
  "failing_env =
     posix_env [''README.md'', ''post_gen_project.sh'']
       \<lparr>stdout = [], stderr = ''boom'', exit_status = 1\<rparr>"

text \<open>
  A machine whose hooks report, as a JSON object, the command they were started with and
  the names of the files written before.
\<close>

definition tracing_popen ::
  "(string \<times> string) list \<Rightarrow> string list \<Rightarrow> bool \<Rightarrow> string \<Rightarrow> string \<Rightarrow> proc_result" where
  \<open>tracing_popen written cmd shell cwd input =
     \<lparr>stdout = ''{"ran": "'' @ concat cmd @ ''", "wrote": "'' @ concat (map fst written) @ ''"}'',
      stderr = [], exit_status = 0\<rparr>\<close>

definition tracing_env :: env where
  "tracing_env = (posix_env [''post_gen_project.sh''] \<lparr>stdout = [], stderr = [], exit_status = 0\<rparr>)
     \<lparr>popen := tracing_popen\<rparr>"

definition in_place_context :: context_dict where
  "in_place_context = [(''my_key'', JString ''my_val''), (''_run_hook_in_place'', JBool True)]"

text \<open>
  The facade of \<^verbatim>\<open>test_register_serializer\<close>, with \<^verbatim>\<open>DummySerializer\<close> registered as
  \<^verbatim>\<open>dummy\<close>, and a context other than the two of the test module.
\<close>

definition dummy_facade :: facade where
  "dummy_facade = snd (register fresh_facade ''dummy'' (Class DummySerializer))"

definition demo_context :: context_dict where
  "demo_context = [(''name'', JString ''demo'')]"

definition bar_context :: context_dict where
  "bar_context = [(''a|b'', JInt 1)]"

section \<open>Properties of the hook executor\<close>

subsection \<open>What the pattern finds\<close>

lemma greedy_close_None: "CHR ''}'' \<notin> set cs \<Longrightarrow> greedy_close cs = None"
proof -
  assume a: "CHR ''}'' \<notin> set cs"
  have "CHR ''}'' \<notin> set (rev (takeWhile (\<lambda>c. c \<noteq> CHR 0x0A) cs))"
    using a by (auto dest: set_takeWhileD)
  then have "dropWhile (\<lambda>c. c \<noteq> CHR ''}'') (rev (takeWhile (\<lambda>c. c \<noteq> CHR 0x0A) cs)) = []"
    by (auto simp: dropWhile_eq_Nil_conv)
  then show ?thesis by (simp add: greedy_close_def)
qed

lemma has_braces_Cons:
  "has_braces (c # cs) = (if c = CHR ''{'' then CHR ''}'' \<in> set cs else has_braces cs)"
  by (simp add: has_braces_def)

lemma has_braces_mem: "has_braces cs \<Longrightarrow> CHR ''}'' \<in> set cs"
  by (auto simp: has_braces_def dest: set_dropWhileD)

lemma findall_braces_no_braces: "\<not> has_braces s \<Longrightarrow> findall_braces s = []"
proof (induction s)
  case Nil
  then show ?case by simp
next
  case (Cons c cs)
  show ?case
  proof (cases "c = CHR ''{''")
    case True
    with Cons.prems have nb: "CHR ''}'' \<notin> set cs" by (simp add: has_braces_Cons)
    then have "\<not> has_braces cs" using has_braces_mem by blast
    with Cons.IH nb True show ?thesis by (simp add: greedy_close_None)
  next
    case False
    with Cons show ?thesis by (simp add: has_braces_Cons)
  qed
qed

lemma rev_dropWhile_rev_take:
  "rev (dropWhile P (rev xs)) = take (length (dropWhile P (rev xs))) xs"
proof -
  have "rev xs = takeWhile P (rev xs) @ dropWhile P (rev xs)" by simp
  then have "xs = rev (dropWhile P (rev xs)) @ rev (takeWhile P (rev xs))"
    by (metis rev_append rev_rev_ident)
  then have "take (length (rev (dropWhile P (rev xs)))) xs = rev (dropWhile P (rev xs))"
    by (metis append_eq_conv_conj)
  then show ?thesis by simp
qed

lemma drop_after_last:
  "x \<in> set (drop (length (dropWhile P (rev xs))) xs) \<Longrightarrow> P x"
proof -
  assume a: "x \<in> set (drop (length (dropWhile P (rev xs))) xs)"
  have "rev xs = takeWhile P (rev xs) @ dropWhile P (rev xs)" by simp
  then have "xs = rev (dropWhile P (rev xs)) @ rev (takeWhile P (rev xs))"
    by (metis rev_append rev_rev_ident)
  then have "drop (length (rev (dropWhile P (rev xs)))) xs = rev (takeWhile P (rev xs))"
    by (metis append_eq_conv_conj)
  with a have "x \<in> set (takeWhile P (rev xs))" by simp
  then show "P x" by (rule set_takeWhileD[THEN conjunct2])
qed

text \<open>On a text of one line, a match at an opening brace runs to the last closing brace.\<close>

lemma greedy_close_line:
  assumes "CHR 0x0A \<notin> set cs" and that: "after = [] \<or> hd after = CHR 0x0A"
  shows "greedy_close (cs @ after) =
         (if CHR ''}'' \<in> set cs
          then Some (rev (dropWhile (\<lambda>c. c \<noteq> CHR ''}'') (rev cs)),
                     drop (length (dropWhile (\<lambda>c. c \<noteq> CHR ''}'') (rev cs))) cs @ after)
          else None)"
proof -
  have line: "takeWhile (\<lambda>c. c \<noteq> CHR 0x0A) (cs @ after) = cs"
    using assms that by (cases after) (auto simp: takeWhile_tail takeWhile_eq_all_conv)
  let ?n = "length (dropWhile (\<lambda>c. c \<noteq> CHR ''}'') (rev cs))"
  have le: "?n \<le> length cs" by (metis length_dropWhile_le length_rev)
  show ?thesis
  proof (cases "CHR ''}'' \<in> set cs")
    case True
    then have "dropWhile (\<lambda>c. c \<noteq> CHR ''}'') (rev cs) \<noteq> []"
      by (auto simp: dropWhile_eq_Nil_conv)
    then have "?n \<noteq> 0" by simp
    with True le line show ?thesis
      by (simp add: greedy_close_def Let_def rev_dropWhile_rev_take)
  next
    case False
    then have "dropWhile (\<lambda>c. c \<noteq> CHR ''}'') (rev cs) = []"
      by (auto simp: dropWhile_eq_Nil_conv)
    with False line show ?thesis by (simp add: greedy_close_def Let_def)
  qed
qed

lemma findall_braces_line_append:
  "CHR 0x0A \<notin> set l \<Longrightarrow>
   findall_braces (l @ CHR 0x0A # rest) = findall_braces l @ findall_braces rest"
proof (induction l rule: findall_braces.induct)
  case 1
  then show ?case by simp
next
  case (2 c cs)
  have nl: "CHR 0x0A \<notin> set cs" using "2.prems" by simp
  show ?case
  proof (cases "c = CHR ''{''")
    case False
    with 2 show ?thesis by simp
  next
    case True
    have gc1: "greedy_close (cs @ CHR 0x0A # rest) =
         (if CHR ''}'' \<in> set cs
          then Some (rev (dropWhile (\<lambda>c. c \<noteq> CHR ''}'') (rev cs)),
                     drop (length (dropWhile (\<lambda>c. c \<noteq> CHR ''}'') (rev cs))) cs @ CHR 0x0A # rest)
          else None)"
      by (rule greedy_close_line[OF nl]) simp
    have gc2: "greedy_close cs =
         (if CHR ''}'' \<in> set cs
          then Some (rev (dropWhile (\<lambda>c. c \<noteq> CHR ''}'') (rev cs)),
                     drop (length (dropWhile (\<lambda>c. c \<noteq> CHR ''}'') (rev cs))) cs)
          else None)"
      using greedy_close_line[OF nl, of "[]"] by simp
    show ?thesis
    proof (cases "CHR ''}'' \<in> set cs")
      case False
      with gc2 have g: "greedy_close cs = None" by simp
      have "findall_braces (cs @ CHR 0x0A # rest) = findall_braces cs @ findall_braces rest"
        by (rule "2.IH"(1)[OF True g nl])
      with True False gc1 g show ?thesis by simp
    next
      case T2: True
      let ?n = "length (dropWhile (\<lambda>c. c \<noteq> CHR ''}'') (rev cs))"
      have g: "greedy_close cs = Some (rev (dropWhile (\<lambda>c. c \<noteq> CHR ''}'') (rev cs)), drop ?n cs)"
        using gc2 T2 by simp
      have "CHR 0x0A \<notin> set (drop ?n cs)" using nl by (meson in_set_dropD)
      from "2.IH"(2)[OF True g refl this]
      have "findall_braces (drop ?n cs @ CHR 0x0A # rest)
            = findall_braces (drop ?n cs) @ findall_braces rest" .
      with True T2 gc1 g show ?thesis by simp
    qed
  qed
qed

lemma findall_braces_one_line:
  assumes "CHR 0x0A \<notin> set l"
  shows "findall_braces l = line_match l"
  using assms
proof (induction l)
  case Nil
  then show ?case by (simp add: line_match_def has_braces_def)
next
  case (Cons c cs)
  then have nl: "CHR 0x0A \<notin> set cs" by simp
  show ?case
  proof (cases "c = CHR ''{''")
    case False
    with Cons show ?thesis by (simp add: line_match_def has_braces_Cons brace_span_def)
  next
    case True
    have gc: "greedy_close cs =
         (if CHR ''}'' \<in> set cs
          then Some (rev (dropWhile (\<lambda>c. c \<noteq> CHR ''}'') (rev cs)),
                     drop (length (dropWhile (\<lambda>c. c \<noteq> CHR ''}'') (rev cs))) cs)
          else None)"
      using greedy_close_line[OF nl, of "[]"] by simp
    let ?d = "dropWhile (\<lambda>c. c \<noteq> CHR ''}'') (rev cs)"
    show ?thesis
    proof (cases "CHR ''}'' \<in> set cs")
      case False
      then have "\<not> has_braces cs" using has_braces_mem by blast
      with False True gc show ?thesis
        by (simp add: line_match_def has_braces_Cons findall_braces_no_braces)
    next
      case T2: True
      have "CHR ''}'' \<notin> set (drop (length ?d) cs)"
        using drop_after_last[of "CHR ''}''" "\<lambda>c. c \<noteq> CHR ''}''" cs] by blast
      then have "\<not> has_braces (drop (length ?d) cs)" using has_braces_mem by blast
      then have rest: "findall_braces (drop (length ?d) cs) = []"
        by (rule findall_braces_no_braces)
      have span: "brace_span (c # cs) = c # rev ?d"
        using True T2 by (simp add: brace_span_def dropWhile_append1)
      from True T2 gc rest span show ?thesis
        by (simp add: line_match_def has_braces_Cons)
    qed
  qed
qed

text \<open>
  The matches of a text are the matches of its lines, in order; a line has at most one
  match, from its first opening brace to its last closing brace.
\<close>

lemma findall_braces_lines: "findall_braces s = concat (map line_match (split_lines s))"
proof (induction s rule: split_lines.induct)
  case (1 s)
  let ?l = "takeWhile (\<lambda>c. c \<noteq> CHR 0x0A) s"
  have nl: "CHR 0x0A \<notin> set ?l" by (auto dest: set_takeWhileD)
  show ?case
  proof (cases "dropWhile (\<lambda>c. c \<noteq> CHR 0x0A) s")
    case Nil
    have "?l @ dropWhile (\<lambda>c. c \<noteq> CHR 0x0A) s = s" by (rule takeWhile_dropWhile_id)
    then have ls: "?l = s" by (simp only: Nil append_Nil2)
    have sl: "split_lines s = [s]"
      by (subst split_lines.simps) (simp only: Nil list.case)
    from nl ls have "findall_braces s = line_match s"
      using findall_braces_one_line[of s] by simp
    with sl show ?thesis by simp
  next
    case (Cons a rest)
    have "\<not> (\<lambda>c. c \<noteq> CHR 0x0A) (hd (dropWhile (\<lambda>c. c \<noteq> CHR 0x0A) s))"
      by (rule hd_dropWhile) (simp only: Cons list.distinct not_False_eq_True)
    then have a: "a = CHR 0x0A" by (simp add: Cons)
    have "?l @ dropWhile (\<lambda>c. c \<noteq> CHR 0x0A) s = s" by (rule takeWhile_dropWhile_id)
    then have s: "s = ?l @ CHR 0x0A # rest" by (simp only: Cons a)
    have "findall_braces s = findall_braces ?l @ findall_braces rest"
      by (subst s) (rule findall_braces_line_append[OF nl])
    also have "\<dots> = line_match ?l @ concat (map line_match (split_lines rest))"
      using "1.IH"[OF Cons] findall_braces_one_line[OF nl] by simp
    finally have fin: "findall_braces s = line_match ?l @ concat (map line_match (split_lines rest))" .
    have sl: "split_lines s = ?l # split_lines rest"
      by (subst split_lines.simps) (simp only: Cons list.case)
    from fin sl show ?thesis by simp
  qed
qed

subsection \<open>Hook files\<close>

lemma rfind_mem:
  assumes "c \<in> set p"
  shows "\<exists>k<length p. rfind p c = int k \<and> p ! k = c"
proof -
  let ?t = "takeWhile (\<lambda>x. x \<noteq> c) (rev p)"
  have "?t \<noteq> rev p"
    using assms by (auto simp: takeWhile_eq_all_conv)
  moreover have "length ?t \<le> length (rev p)" by (rule length_takeWhile_le)
  ultimately have lt: "length ?t < length (rev p)"
    by (metis le_neq_implies_less length_rev takeWhile_eq_take take_all_iff dual_order.refl)
  then have "\<not> (rev p ! length ?t \<noteq> c)" by (rule nth_length_takeWhile)
  then have "rev p ! length ?t = c" by simp
  moreover have "rev p ! length ?t = p ! (length p - Suc (length ?t))"
    using lt by (simp add: rev_nth)
  ultimately have "p ! (length p - Suc (length ?t)) = c" by simp
  moreover have "rfind p c = int (length p - Suc (length ?t))"
    using assms lt by (simp add: rfind_def)
  moreover have "length p - Suc (length ?t) < length p" using lt by simp
  ultimately show ?thesis by blast
qed

lemma rfind_absent: "c \<notin> set p \<Longrightarrow> rfind p c = - 1"
  by (simp add: rfind_def)

lemma skip_leading_dots_Some:
  "skip_leading_dots p i d = Some r \<Longrightarrow> r = (take d p, drop d p)"
  by (induction p i d rule: skip_leading_dots.induct)
     (subst (asm) skip_leading_dots.simps, auto split: if_splits)

lemma splitext_root_cases:
  assumes "fst (splitext p) = n"
  shows "p = n \<or> (\<exists>ext. p = n @ CHR ''.'' # ext)"
proof (cases "splitext p = (p, [])")
  case True
  with assms show ?thesis by simp
next
  case False
  let ?sep = "rfind p CHR ''/''" and ?dot = "rfind p CHR ''.''"
  from False obtain r where gt: "?dot > ?sep"
    and r: "skip_leading_dots p (nat (?sep + 1)) (nat ?dot) = Some r" and sp: "splitext p = r"
    by (auto simp: splitext_def Let_def split: if_splits option.splits)
  have "length (takeWhile (\<lambda>x. x \<noteq> CHR ''/'') (rev p)) \<le> length (rev p)"
    by (rule length_takeWhile_le)
  then have "?sep \<ge> - 1" by (cases "CHR ''/'' \<in> set p") (auto simp: rfind_def)
  with gt have "?dot \<ge> 0" by simp
  then have "CHR ''.'' \<in> set p" using rfind_absent[of "CHR ''.''" p] by fastforce
  then obtain k where k: "k < length p" "?dot = int k" "p ! k = CHR ''.''"
    using rfind_mem by blast
  from r k have "r = (take k p, drop k p)" using skip_leading_dots_Some by fastforce
  with sp assms have n: "n = take k p" by simp
  have "p = take k p @ drop k p" by simp
  also have "drop k p = p ! k # drop (Suc k) p" using k(1) by (rule Cons_nth_drop_Suc[symmetric])
  finally have "p = n @ CHR ''.'' # drop (Suc k) p" using n k(3) by simp
  then show ?thesis by blast
qed

lemma find_hooks_step_other:
  "fst (splitext (basename f)) \<noteq> n \<Longrightarrow> find_hooks_step e f r n = r n"
  by (simp add: find_hooks_step_def Let_def)

lemma fold_find_hooks_step_other:
  "\<forall>f\<in>set fs. fst (splitext (basename f)) \<noteq> n \<Longrightarrow> fold (find_hooks_step e) fs r n = r n"
  by (induction fs arbitrary: r) (simp_all add: find_hooks_step_other)

lemma find_hooks_step_dom:
  "find_hooks_step e f r n \<noteq> None \<Longrightarrow> r n \<noteq> None \<or> n \<in> set HOOKS"
  by (auto simp: find_hooks_step_def Let_def split: if_splits)

lemma fold_find_hooks_step_dom:
  "fold (find_hooks_step e) fs r n \<noteq> None \<Longrightarrow> r n \<noteq> None \<or> n \<in> set HOOKS"
proof (induction fs arbitrary: r)
  case Nil
  then show ?case by simp
next
  case (Cons f fs)
  then have "find_hooks_step e f r n \<noteq> None \<or> n \<in> set HOOKS" by simp
  then show ?case using find_hooks_step_dom by blast
qed

lemma find_hooks_absent:
  assumes "\<not> isdir_hooks e \<or> hook_name \<notin> set HOOKS
           \<or> (\<forall>f\<in>set (listdir_hooks e). fst (splitext (basename f)) \<noteq> hook_name)"
  shows "find_hooks e hook_name = None"
proof (cases "isdir_hooks e")
  case False
  then show ?thesis by (simp add: find_hooks_def)
next
  case True
  show ?thesis
  proof (cases "hook_name \<in> set HOOKS")
    case False
    have "fold (find_hooks_step e) (listdir_hooks e) Map.empty hook_name = None"
    proof (rule ccontr)
      assume "fold (find_hooks_step e) (listdir_hooks e) Map.empty hook_name \<noteq> None"
      then have "Map.empty hook_name \<noteq> (None :: string option) \<or> hook_name \<in> set HOOKS"
        by (rule fold_find_hooks_step_dom)
      with False show False by simp
    qed
    then show ?thesis using True by (simp add: find_hooks_def)
  next
    case T: True
    with assms True have "\<forall>f\<in>set (listdir_hooks e). fst (splitext (basename f)) \<noteq> hook_name"
      by blast
    then show ?thesis using True by (simp add: find_hooks_def fold_find_hooks_step_other)
  qed
qed

subsection \<open>Concrete runs\<close>

lemmas run_defs = run_script_with_context_def context_from_result_def do_run_script_def
  hook_process_def EXIT_SUCCESS_def Let_def case_prod_beta

lemma posix_env_simps:
  "isdir_hooks (posix_env fs pr) = True"
  "listdir_hooks (posix_env fs pr) = fs"
  "abspath (posix_env fs pr) p = ''/template/'' @ p"
  "platform (posix_env fs pr) = ''linux''"
  "popen (posix_env fs pr) w cmd sh d i = pr"
  "bytes_decode (posix_env fs pr) = Some"
  "json_loads (posix_env fs pr) = json_loads_ref"
  by (simp_all add: posix_env_def)

lemma loads_new_key:
  \<open>json_loads_ref ''{"new_key": "v"}'' = Some (JObject [(''new_key'', JString ''v'')])\<close>
  by (simp add: json_loads_ref_def skip_ws_def ws_char_def dict_set_def)

lemma loads_two_objects:
  \<open>json_loads_ref ''{"a": 1} new {"new_key": "v"}'' = None\<close>
  by (simp add: json_loads_ref_def skip_ws_def ws_char_def dict_set_def scan_number_def
      float_tail_def digit_char_def read_nat_def)

lemma findall_two_objects:
  \<open>findall_braces two_objects_output = [''{"a": 1} new {"new_key": "v"}'']\<close>
  by (simp add: two_objects_output_def greedy_close_def)

lemma findall_new_key:
  \<open>findall_braces new_key_output = [''{"new_key": "v"}'']\<close>
  by (simp add: new_key_output_def greedy_close_def)


text \<open>
  A file called by the hook name alone is a hook; a file with two extensions is not, as
  only the last extension is stripped.
\<close>

lemma extensionless_hook_found:
  "find_hooks (posix_env [''pre_gen_project'', ''post_gen_project.tar.gz''] pr) ''pre_gen_project''
     = Some ''/template/hooks/pre_gen_project''
   \<and> find_hooks (posix_env [''pre_gen_project'', ''post_gen_project.tar.gz''] pr) ''post_gen_project''
     = None"
  by (simp add: find_hooks_def posix_env_simps find_hooks_step_def HOOKS_def
      splitext_def basename_def rfind_def skip_leading_dots.simps path_join_def Let_def)

subsection \<open>The context that a hook hands back\<close>

text \<open>
  C1, as the code has it.  When the hook exits with status 0 and its output decodes, the
  output is searched line by line: a line with a closing brace after an opening brace
  gives one match, from its first opening brace to its last closing brace.  If there is a
  match and the last one is JSON text, \<open>run_script_with_context\<close> returns the decoded
  value as the new context.
\<close>

theorem run_script_returns_last_match:
  assumes "exit_status (hook_process e script_path cwd ctx) = 0"
    and "bytes_decode e (stdout (hook_process e script_path cwd ctx)) = Some text"
    and "concat (map line_match (split_lines text)) \<noteq> []"
    and "json_loads e (last (concat (map line_match (split_lines text)))) = Some v"
  shows "run_script_with_context e script_path cwd ctx = Inr v"
  using assms
  by (simp add: run_defs findall_braces_lines[symmetric])

text \<open>
  A hook that prints \<^verbatim>\<open>{"new_key": "v"}\<close> on a line of its own, between two other lines,
  hands back the context \<^verbatim>\<open>{"new_key": "v"}\<close>.
\<close>

theorem run_script_returns_last_match_witness:
  \<open>exit_status (hook_process new_key_env hook_path ''/project'' object_context) = 0
   \<and> bytes_decode new_key_env (stdout (hook_process new_key_env hook_path ''/project'' object_context))
       = Some new_key_output
   \<and> concat (map line_match (split_lines new_key_output)) = [''{"new_key": "v"}'']
   \<and> json_loads new_key_env ''{"new_key": "v"}'' = Some (JObject [(''new_key'', JString ''v'')])
   \<and> run_script_with_context new_key_env hook_path ''/project'' object_context
       = Inr (JObject [(''new_key'', JString ''v'')])\<close>
proof -
  let ?p = "hook_process new_key_env hook_path ''/project'' object_context"
  have h1: "exit_status ?p = 0"
    by (simp add: hook_process_def case_prod_beta new_key_env_def posix_env_simps)
  have h2: "bytes_decode new_key_env (stdout ?p) = Some new_key_output"
    by (simp add: hook_process_def case_prod_beta new_key_env_def posix_env_simps)
  have m: \<open>concat (map line_match (split_lines new_key_output)) = [''{"new_key": "v"}'']\<close>
    by (simp add: findall_braces_lines[symmetric] findall_new_key)
  then have h3: "concat (map line_match (split_lines new_key_output)) \<noteq> []" by simp
  have l: \<open>json_loads new_key_env ''{"new_key": "v"}'' = Some (JObject [(''new_key'', JString ''v'')])\<close>
    by (simp add: new_key_env_def posix_env_simps loads_new_key)
  then have h4: "json_loads new_key_env (last (concat (map line_match (split_lines new_key_output))))
      = Some (JObject [(''new_key'', JString ''v'')])"
    by (simp add: m)
  from run_script_returns_last_match[OF h1 h2 h3 h4] h1 h2 m l show ?thesis by simp
qed

text \<open>
  C1 as it is stated fails: the output \<^verbatim>\<open>old {"a": 1} new {"new_key": "v"}\<close> ends with
  the JSON object \<^verbatim>\<open>{"new_key": "v"}\<close>, the hook exits with status 0, and the context
  handed back is the input context: the match runs from the first opening brace of the
  line to its last closing brace, and that text is not JSON.
\<close>

theorem last_object_not_returned:
  \<open>exit_status (hook_process two_objects_env hook_path ''/project'' object_context) = 0
   \<and> bytes_decode two_objects_env (stdout (hook_process two_objects_env hook_path ''/project'' object_context))
       = Some (''old {"a": 1} new '' @ ''{"new_key": "v"}'')
   \<and> has_braces (''old {"a": 1} new '' @ ''{"new_key": "v"}'')
   \<and> json_loads two_objects_env ''{"new_key": "v"}'' = Some (JObject [(''new_key'', JString ''v'')])
   \<and> run_script_with_context two_objects_env hook_path ''/project'' object_context
       = Inr (JObject [(''my_key'', JString ''my_val'')])\<close>
proof -
  have "run_script_with_context two_objects_env hook_path ''/project'' object_context
       = Inr (JObject object_context)"
    by (simp add: run_defs two_objects_env_def posix_env_simps findall_two_objects
        loads_two_objects)
  then show ?thesis
    by (simp add: hook_process_def case_prod_beta two_objects_env_def posix_env_simps loads_new_key
        two_objects_output_def has_braces_def object_context_def)
qed



subsection \<open>The exit status\<close>

lemma digit_of_char: "d < 10 \<Longrightarrow> of_char (''0123456789'' ! d) = (48 + d :: nat)"
proof -
  assume "d < 10"
  then have "d = 0 \<or> d = 1 \<or> d = 2 \<or> d = 3 \<or> d = 4 \<or> d = 5 \<or> d = 6 \<or> d = 7
    \<or> d = 8 \<or> d = 9" by arith
  then show ?thesis by (elim disjE) simp_all
qed

lemma digit_not_minus: "d < 10 \<Longrightarrow> ''0123456789'' ! d \<noteq> CHR ''-''"
proof -
  assume "d < 10"
  then have "d = 0 \<or> d = 1 \<or> d = 2 \<or> d = 3 \<or> d = 4 \<or> d = 5 \<or> d = 6 \<or> d = 7
    \<or> d = 8 \<or> d = 9" by arith
  then show ?thesis by (elim disjE) simp_all
qed

lemma read_nat_snoc: "read_nat (ds @ [c]) = 10 * read_nat ds + (of_char c - 48)"
  by (simp add: read_nat_def)

lemma read_show_nat: "read_nat (show_nat n) = n"
proof (induction n rule: show_nat.induct)
  case (1 n)
  show ?case
  proof (cases "n < 10")
    case True
    then show ?thesis
      by (subst show_nat.simps) (simp add: read_nat_def digit_of_char)
  next
    case False
    have "read_nat (show_nat n) = 10 * read_nat (show_nat (n div 10)) + (of_char (''0123456789'' ! (n mod 10)) - 48)"
      using False by (subst show_nat.simps) (simp add: read_nat_snoc)
    also have "\<dots> = 10 * (n div 10) + n mod 10"
      using "1.IH"[OF False] by (simp add: digit_of_char)
    finally show ?thesis by simp
  qed
qed

lemma show_nat_no_minus: "CHR ''-'' \<notin> set (show_nat n)"
proof (induction n rule: show_nat.induct)
  case (1 n)
  show ?case
  proof (cases "n < 10")
    case True
    then show ?thesis using digit_not_minus[of n] by (subst show_nat.simps) auto
  next
    case False
    then show ?thesis using "1.IH"[OF False] digit_not_minus[of "n mod 10"]
      by (subst show_nat.simps) simp
  qed
qed

text \<open>The decimal text determines the number, so the message names one exit status.\<close>

lemma show_int_inj: "show_int a = show_int b \<Longrightarrow> a = b"
proof -
  assume e: "show_int a = show_int b"
  have neg: "\<And>i. i < 0 \<Longrightarrow> hd (show_int i) = CHR ''-''" by (simp add: show_int_def)
  have pos: "\<And>i. \<not> i < 0 \<Longrightarrow> CHR ''-'' \<notin> set (show_int i)"
    by (simp add: show_int_def show_nat_no_minus)
  have ne: "\<And>i. show_int i \<noteq> []"
    by (simp add: show_int_def) (metis list.distinct(1) show_nat.simps snoc_eq_iff_butlast)
  have sgn: "(a < 0) = (b < 0)"
  proof (rule ccontr)
    assume "(a < 0) \<noteq> (b < 0)"
    then consider "a < 0" "\<not> b < 0" | "\<not> a < 0" "b < 0" by blast
    then show False
    proof cases
      case 1
      then have "hd (show_int b) = CHR ''-''" using neg[of a] e by simp
      then have "CHR ''-'' \<in> set (show_int b)" using ne[of b] by (metis hd_in_set)
      with pos[OF 1(2)] show False by simp
    next
      case 2
      then have "hd (show_int a) = CHR ''-''" using neg[of b] e by simp
      then have "CHR ''-'' \<in> set (show_int a)" using ne[of a] by (metis hd_in_set)
      with pos[OF 2(1)] show False by simp
    qed
  qed
  show "a = b"
  proof (cases "a < 0")
    case True
    with sgn e have "show_nat (nat (- a)) = show_nat (nat (- b))" by (simp add: show_int_def)
    then have "nat (- a) = nat (- b)" by (metis read_show_nat)
    with True sgn show ?thesis by simp
  next
    case False
    with sgn e have "show_nat (nat a) = show_nat (nat b)" by (simp add: show_int_def)
    then have "nat a = nat b" by (metis read_show_nat)
    with False sgn show ?thesis by simp
  qed
qed

lemma failed_hook_message_inj: "failed_hook_message a = failed_hook_message b \<Longrightarrow> a = b"
  by (simp add: failed_hook_message_def show_int_inj)



subsection \<open>No hook\<close>

text \<open>
  C8.  Without a directory \<^verbatim>\<open>hooks\<close>, \<open>find_hooks\<close> returns the empty mapping and
  \<open>run_hook\<close> returns the context unchanged.  \<open>run_hook\<close> also returns the context
  unchanged when no file of the directory matches the hook name: when no file name,
  stripped of its extension, is the hook name, and so in particular when no file is
  called by the hook name alone or by the hook name followed by a dot and anything.
\<close>

theorem run_hook_without_hook:
  "(\<not> isdir_hooks e \<longrightarrow> find_hooks e = Map.empty \<and> run_hook e hook_name project_dir ctx = Inr (JObject ctx))
   \<and> ((\<forall>f\<in>set (listdir_hooks e). fst (splitext (basename f)) \<noteq> hook_name)
        \<longrightarrow> run_hook e hook_name project_dir ctx = Inr (JObject ctx))
   \<and> ((\<forall>f\<in>set (listdir_hooks e).
          basename f \<noteq> hook_name \<and> \<not> prefix (hook_name @ ''.'') (basename f))
        \<longrightarrow> run_hook e hook_name project_dir ctx = Inr (JObject ctx))"
proof (intro conjI impI)
  assume "\<not> isdir_hooks e"
  then show "find_hooks e = Map.empty" by (simp add: find_hooks_def)
next
  assume "\<not> isdir_hooks e"
  then show "run_hook e hook_name project_dir ctx = Inr (JObject ctx)"
    by (simp add: run_hook_def find_hooks_def)
next
  assume "\<forall>f\<in>set (listdir_hooks e). fst (splitext (basename f)) \<noteq> hook_name"
  then have "find_hooks e hook_name = None" by (simp add: find_hooks_absent)
  then show "run_hook e hook_name project_dir ctx = Inr (JObject ctx)"
    by (simp add: run_hook_def)
next
  assume a: "\<forall>f\<in>set (listdir_hooks e).
          basename f \<noteq> hook_name \<and> \<not> prefix (hook_name @ ''.'') (basename f)"
  have "\<forall>f\<in>set (listdir_hooks e). fst (splitext (basename f)) \<noteq> hook_name"
  proof
    fix f assume f: "f \<in> set (listdir_hooks e)"
    show "fst (splitext (basename f)) \<noteq> hook_name"
    proof
      assume "fst (splitext (basename f)) = hook_name"
      then have "basename f = hook_name \<or> (\<exists>ext. basename f = hook_name @ CHR ''.'' # ext)"
        by (rule splitext_root_cases)
      then show False using a f by (auto simp: prefix_def)
    qed
  qed
  then have "find_hooks e hook_name = None" by (simp add: find_hooks_absent)
  then show "run_hook e hook_name project_dir ctx = Inr (JObject ctx)"
    by (simp add: run_hook_def)
qed

theorem run_hook_without_hook_witness:
  "\<not> isdir_hooks bare_env
   \<and> find_hooks bare_env = Map.empty
   \<and> run_hook bare_env ''pre_gen_project'' ''/project'' object_context = Inr (JObject object_context)
   \<and> listdir_hooks failing_env = [''README.md'', ''post_gen_project.sh'']
   \<and> fst (splitext (basename ''README.md'')) = ''README''
   \<and> fst (splitext (basename ''post_gen_project.sh'')) = ''post_gen_project''
   \<and> run_hook failing_env ''pre_gen_project'' ''/project'' object_context = Inr (JObject object_context)"
proof -
  have h1: "\<not> isdir_hooks bare_env" by (simp add: bare_env_def)
  have l: "listdir_hooks failing_env = [''README.md'', ''post_gen_project.sh'']"
    by (simp add: failing_env_def posix_env_simps)
  have r1: "fst (splitext (basename ''README.md'')) = ''README''"
    by (simp add: splitext_def basename_def rfind_def skip_leading_dots.simps Let_def)
  have r2: "fst (splitext (basename ''post_gen_project.sh'')) = ''post_gen_project''"
    by (simp add: splitext_def basename_def rfind_def skip_leading_dots.simps Let_def)
  have h2: "\<forall>f\<in>set (listdir_hooks failing_env). fst (splitext (basename f)) \<noteq> ''pre_gen_project''"
    by (simp add: l r1 r2)
  have b1: "basename ''README.md'' = ''README.md''" "basename ''post_gen_project.sh'' = ''post_gen_project.sh''"
    by (simp_all add: basename_def rfind_def)
  have h3: "\<forall>f\<in>set (listdir_hooks failing_env).
          basename f \<noteq> ''pre_gen_project'' \<and> \<not> prefix (''pre_gen_project'' @ ''.'') (basename f)"
    by (simp add: l b1)
  note a = run_hook_without_hook[where e=bare_env and hook_name="''pre_gen_project''"
      and project_dir="''/project''" and ctx=object_context]
  note b = run_hook_without_hook[where e=failing_env and hook_name="''pre_gen_project''"
      and project_dir="''/project''" and ctx=object_context]
  from a h1 have "find_hooks bare_env = Map.empty
    \<and> run_hook bare_env ''pre_gen_project'' ''/project'' object_context = Inr (JObject object_context)"
    by blast
  moreover from b h2 h3 have "run_hook failing_env ''pre_gen_project'' ''/project'' object_context
    = Inr (JObject object_context)" by blast
  ultimately show ?thesis using h1 l r1 r2 by blast
qed

subsection \<open>What the result depends on\<close>

lemma hook_script_popen [simp]: "hook_script (e\<lparr>popen := q\<rparr>) sp ctx = hook_script e sp ctx"
  by (simp add: hook_script_def create_renderable_hook_def)

lemma get_script_command_popen:
  "get_script_command (e\<lparr>popen := q\<rparr>) s = get_script_command e s"
  by (simp add: get_script_command_def)

lemma context_from_result_popen:
  "context_from_result (e\<lparr>popen := q\<rparr>) ctx r = context_from_result e ctx r"
  by (simp add: context_from_result_def Let_def split: sum.splits exn.splits option.splits)

text \<open>
  C9.  Put another process behind \<open>popen\<close>: if the process that
  \<open>run_script_with_context\<close> starts has the same standard output and the same exit
  status as before, the result is the same, whatever the process wrote to its standard
  error.
\<close>

theorem stderr_never_examined:
  assumes "stdout (hook_process (e\<lparr>popen := q\<rparr>) script_path cwd ctx)
           = stdout (hook_process e script_path cwd ctx)"
    and "exit_status (hook_process (e\<lparr>popen := q\<rparr>) script_path cwd ctx)
           = exit_status (hook_process e script_path cwd ctx)"
  shows "run_script_with_context (e\<lparr>popen := q\<rparr>) script_path cwd ctx
         = run_script_with_context e script_path cwd ctx"
proof -
  let ?e = "e\<lparr>popen := q\<rparr>"
  obtain script written where hs: "hook_script e script_path ctx = (script, written)"
    by (cases "hook_script e script_path ctx")
  let ?p = "popen e written (get_script_command e script) (startswith (platform e) ''win'') cwd
      (json_dumps e ctx)"
  let ?p' = "q written (get_script_command e script) (startswith (platform e) ''win'') cwd
      (json_dumps e ctx)"
  from assms hs have so: "stdout ?p' = stdout ?p" and ex: "exit_status ?p' = exit_status ?p"
    by (simp_all add: hook_process_def get_script_command_popen)
  have "context_from_result ?e ctx (do_run_script ?e written script cwd (json_dumps ?e ctx))
        = context_from_result e ctx (do_run_script e written script cwd (json_dumps e ctx))"
    using so ex
    by (simp add: context_from_result_popen)
       (simp add: context_from_result_def do_run_script_def get_script_command_popen Let_def)
  with hs show ?thesis by (simp add: run_script_with_context_def)
qed

theorem stderr_never_examined_witness:
  "stdout (hook_process (new_key_env\<lparr>popen := noisy_popen\<rparr>) hook_path ''/project'' object_context)
     = stdout (hook_process new_key_env hook_path ''/project'' object_context)
   \<and> exit_status (hook_process (new_key_env\<lparr>popen := noisy_popen\<rparr>) hook_path ''/project'' object_context)
     = exit_status (hook_process new_key_env hook_path ''/project'' object_context)
   \<and> stderr (hook_process (new_key_env\<lparr>popen := noisy_popen\<rparr>) hook_path ''/project'' object_context)
     \<noteq> stderr (hook_process new_key_env hook_path ''/project'' object_context)
   \<and> run_script_with_context (new_key_env\<lparr>popen := noisy_popen\<rparr>) hook_path ''/project'' object_context
     = run_script_with_context new_key_env hook_path ''/project'' object_context"
proof -
  have h1: "stdout (hook_process (new_key_env\<lparr>popen := noisy_popen\<rparr>) hook_path ''/project'' object_context)
     = stdout (hook_process new_key_env hook_path ''/project'' object_context)"
    by (simp add: hook_process_def case_prod_beta new_key_env_def posix_env_simps noisy_popen_def)
  have h2: "exit_status (hook_process (new_key_env\<lparr>popen := noisy_popen\<rparr>) hook_path ''/project'' object_context)
     = exit_status (hook_process new_key_env hook_path ''/project'' object_context)"
    by (simp add: hook_process_def case_prod_beta new_key_env_def posix_env_simps noisy_popen_def)
  have h3: "stderr (hook_process (new_key_env\<lparr>popen := noisy_popen\<rparr>) hook_path ''/project'' object_context)
     \<noteq> stderr (hook_process new_key_env hook_path ''/project'' object_context)"
    by (simp add: hook_process_def case_prod_beta new_key_env_def posix_env_simps noisy_popen_def)
  from stderr_never_examined[OF h1 h2] h1 h2 h3 show ?thesis by simp
qed

subsection \<open>In place or rendered\<close>

lemma splitext_hook_path: "splitext hook_path = (''/template/hooks/post_gen_project'', ''.sh'')"
  by (simp add: hook_path_def splitext_def rfind_def skip_leading_dots.simps Let_def)

lemma tracing_env_simps:
  "popen tracing_env = tracing_popen"
  "platform tracing_env = ''linux''"
  "temp_stem tracing_env = ''/tmp/tmpq3x1''"
  "bytes_decode tracing_env = Some"
  "json_loads tracing_env = json_loads_ref"
  "read_text tracing_env p = ''echo {{ cookiecutter }}''"
  "jinja_render tracing_env t c = t"
  by (simp_all add: tracing_env_def posix_env_def)

lemma loads_ran_in_place:
  \<open>json_loads_ref ''{"ran": "/template/hooks/post_gen_project.sh", "wrote": ""}''
   = Some (JObject [(''ran'', JString ''/template/hooks/post_gen_project.sh''), (''wrote'', JString [])])\<close>
  by (simp add: json_loads_ref_def skip_ws_def ws_char_def dict_set_def)

lemma loads_ran_rendered:
  \<open>json_loads_ref ''{"ran": "/tmp/tmpq3x1.sh", "wrote": "/tmp/tmpq3x1.sh"}''
   = Some (JObject [(''ran'', JString ''/tmp/tmpq3x1.sh''), (''wrote'', JString ''/tmp/tmpq3x1.sh'')])\<close>
  by (simp add: json_loads_ref_def skip_ws_def ws_char_def dict_set_def)

text \<open>
  C10.  The hook runs in place exactly when the context has the key
  \<^verbatim>\<open>_run_hook_in_place\<close> with a truthy value: then nothing is written and
  \<^verbatim>\<open>__do_run_script\<close> is given the path of the hook itself.  For every other context the
  text of the hook, rendered with the context, is written to a temporary file whose name
  ends with the extension of the hook, and \<^verbatim>\<open>__do_run_script\<close> is given that name.
\<close>

theorem run_in_place_or_rendered:
  "(run_hook_in_place ctx \<longleftrightarrow> (\<exists>v. map_of ctx ''_run_hook_in_place'' = Some v \<and> truthy v))
   \<and> (run_hook_in_place ctx \<longrightarrow>
        run_script_with_context e script_path cwd ctx
          = context_from_result e ctx (do_run_script e [] script_path cwd (json_dumps e ctx)))
   \<and> (\<not> run_hook_in_place ctx \<longrightarrow>
        suffix (snd (splitext script_path)) (temp_stem e @ snd (splitext script_path))
        \<and> run_script_with_context e script_path cwd ctx
          = context_from_result e ctx
              (do_run_script e
                 [(temp_stem e @ snd (splitext script_path),
                   jinja_render e (read_text e script_path) ctx)]
                 (temp_stem e @ snd (splitext script_path)) cwd (json_dumps e ctx)))"
  by (auto simp: run_hook_in_place_def run_script_with_context_def hook_script_def
      create_renderable_hook_def Let_def suffix_def split: option.splits)

theorem run_in_place_or_rendered_witness:
  "run_hook_in_place in_place_context
   \<and> run_script_with_context tracing_env hook_path ''/project'' in_place_context
       = Inr (JObject [(''ran'', JString ''/template/hooks/post_gen_project.sh''), (''wrote'', JString [])])
   \<and> \<not> run_hook_in_place object_context
   \<and> run_script_with_context tracing_env hook_path ''/project'' object_context
       = Inr (JObject [(''ran'', JString ''/tmp/tmpq3x1.sh''), (''wrote'', JString ''/tmp/tmpq3x1.sh'')])"
proof -
  have f1: "run_hook_in_place in_place_context"
    by (simp add: run_hook_in_place_def in_place_context_def)
  have f2: "\<not> run_hook_in_place object_context"
    by (simp add: run_hook_in_place_def object_context_def)
  note a = run_in_place_or_rendered[where ctx=in_place_context and e=tracing_env
      and script_path=hook_path and cwd="''/project''"]
  note b = run_in_place_or_rendered[where ctx=object_context and e=tracing_env
      and script_path=hook_path and cwd="''/project''"]
  have c1: "context_from_result tracing_env in_place_context
        (do_run_script tracing_env [] hook_path ''/project'' (json_dumps tracing_env in_place_context))
      = Inr (JObject [(''ran'', JString ''/template/hooks/post_gen_project.sh''), (''wrote'', JString [])])"
    by (simp add: context_from_result_def do_run_script_def tracing_env_simps tracing_popen_def
        EXIT_SUCCESS_def Let_def get_script_command_def endswith_def hook_path_def greedy_close_def
        loads_ran_in_place)
  have c2: "context_from_result tracing_env object_context
        (do_run_script tracing_env
           [(temp_stem tracing_env @ snd (splitext hook_path),
             jinja_render tracing_env (read_text tracing_env hook_path) object_context)]
           (temp_stem tracing_env @ snd (splitext hook_path)) ''/project''
           (json_dumps tracing_env object_context))
      = Inr (JObject [(''ran'', JString ''/tmp/tmpq3x1.sh''), (''wrote'', JString ''/tmp/tmpq3x1.sh'')])"
    by (simp add: context_from_result_def do_run_script_def tracing_env_simps tracing_popen_def
        EXIT_SUCCESS_def Let_def get_script_command_def endswith_def splitext_hook_path
        greedy_close_def loads_ran_rendered)
  from a f1 c1 have r1: "run_script_with_context tracing_env hook_path ''/project'' in_place_context
       = Inr (JObject [(''ran'', JString ''/template/hooks/post_gen_project.sh''), (''wrote'', JString [])])"
    by simp
  from b f2 c2 have r2: "run_script_with_context tracing_env hook_path ''/project'' object_context
       = Inr (JObject [(''ran'', JString ''/tmp/tmpq3x1.sh''), (''wrote'', JString ''/tmp/tmpq3x1.sh'')])"
    by simp
  from f1 f2 r1 r2 show ?thesis by simp
qed

section \<open>Properties of the serialization facade\<close>

subsection \<open>Tags at the end of a text\<close>

lemma tag_start_tag_char: "tag_start c \<Longrightarrow> tag_char c"
  by (simp add: tag_char_def)

lemma valid_tag_chars: "valid_tag t \<Longrightarrow> list_all tag_char t \<and> t \<noteq> [] \<and> tag_start (hd t)"
  by (cases t) (auto simp: valid_tag_def tag_start_tag_char)

lemma valid_tag_iff: "valid_tag t \<longleftrightarrow> t \<noteq> [] \<and> tag_start (hd t) \<and> list_all tag_char t"
  by (cases t) (auto simp: valid_tag_def tag_start_tag_char)

lemma bar_not_tag_char: "\<not> tag_char (CHR ''|'')"
  by (simp add: tag_char_def tag_start_def)

lemma tag_before_run:
  "\<exists>ns. rev (takeWhile tag_char r) = ns @ tag_before r \<and> (\<forall>c\<in>set ns. \<not> tag_start c)"
proof -
  let ?run = "rev (takeWhile tag_char r)"
  have "?run = takeWhile (\<lambda>c. \<not> tag_start c) ?run @ tag_before r"
    by (simp add: tag_before_def)
  moreover have "\<forall>c\<in>set (takeWhile (\<lambda>c. \<not> tag_start c) ?run). \<not> tag_start c"
    by (auto dest: set_takeWhileD)
  ultimately show ?thesis by blast
qed

lemma tag_before_suffix: "suffix (tag_before r) (rev r)"
proof -
  obtain ns where ns: "rev (takeWhile tag_char r) = ns @ tag_before r"
    using tag_before_run by blast
  have "r = takeWhile tag_char r @ dropWhile tag_char r" by simp
  then have "rev r = rev (dropWhile tag_char r) @ rev (takeWhile tag_char r)"
    by (metis rev_append)
  with ns have "rev r = (rev (dropWhile tag_char r) @ ns) @ tag_before r" by simp
  then show ?thesis unfolding suffix_def by blast
qed

lemma tag_before_valid: "tag_before r \<noteq> [] \<Longrightarrow> valid_tag (tag_before r)"
proof -
  assume ne: "tag_before r \<noteq> []"
  let ?run = "rev (takeWhile tag_char r)"
  have "\<not> \<not> tag_start (hd (dropWhile (\<lambda>c. \<not> tag_start c) ?run))"
    using ne unfolding tag_before_def by (rule hd_dropWhile)
  then have st: "tag_start (hd (tag_before r))" by (simp add: tag_before_def)
  have "set (tag_before r) \<subseteq> set ?run"
    unfolding tag_before_def by (auto dest: set_dropWhileD)
  also have "\<dots> \<subseteq> {c. tag_char c}" by (auto dest: set_takeWhileD)
  finally have "list_all tag_char (tag_before r)" by (auto simp: list_all_iff)
  with ne st show ?thesis by (simp add: valid_tag_iff)
qed

text \<open>A valid tag at the end of a text lies within the run of tag characters that ends it.\<close>

lemma valid_suffix_in_run:
  assumes "valid_tag t" and "suffix t (rev r)"
  shows "suffix t (rev (takeWhile tag_char r))"
proof -
  from assms(2) obtain zs where "rev r = zs @ t" unfolding suffix_def by blast
  then have r: "r = rev t @ rev zs" by (metis rev_append rev_rev_ident)
  have "\<And>c. c \<in> set (rev t) \<Longrightarrow> tag_char c"
    using valid_tag_chars[OF assms(1)] by (simp add: list_all_iff)
  then have "takeWhile tag_char (rev t @ rev zs) = rev t @ takeWhile tag_char (rev zs)"
    by (rule takeWhile_append2)
  then have "takeWhile tag_char r = rev t @ takeWhile tag_char (rev zs)"
    by (simp only: r)
  then have "rev (takeWhile tag_char r) = rev (takeWhile tag_char (rev zs)) @ t" by simp
  then show ?thesis unfolding suffix_def by blast
qed

lemma tag_before_longest:
  assumes "valid_tag t" and "suffix t (rev r)"
  shows "suffix t (tag_before r)"
proof -
  obtain ns where ns: "rev (takeWhile tag_char r) = ns @ tag_before r"
    and nst: "\<forall>c\<in>set ns. \<not> tag_start c"
    using tag_before_run by blast
  from valid_suffix_in_run[OF assms] ns have "suffix t (ns @ tag_before r)" by simp
  then have "suffix t (tag_before r) \<or> (\<exists>us. us \<noteq> [] \<and> suffix us ns \<and> t = us @ tag_before r)"
    by (auto simp: suffix_append)
  then show ?thesis
  proof
    assume "suffix t (tag_before r)" then show ?thesis .
  next
    assume "\<exists>us. us \<noteq> [] \<and> suffix us ns \<and> t = us @ tag_before r"
    then obtain us where us: "us \<noteq> []" "suffix us ns" "t = us @ tag_before r" by blast
    then have "hd t = hd us" by simp
    moreover have "hd us \<in> set ns" using us(1,2) by (metis hd_in_set set_mono_suffix subsetD)
    ultimately have "\<not> tag_start (hd t)" using nst by simp
    with valid_tag_chars[OF assms(1)] show ?thesis by simp
  qed
qed

lemma tag_before_Nil_iff:
  "tag_before (rev x) = [] \<longleftrightarrow> \<not> (\<exists>t. valid_tag t \<and> suffix t x)"
proof
  assume e: "tag_before (rev x) = []"
  show "\<not> (\<exists>t. valid_tag t \<and> suffix t x)"
  proof
    assume "\<exists>t. valid_tag t \<and> suffix t x"
    then obtain t where t: "valid_tag t" "suffix t x" by blast
    then have "suffix t (tag_before (rev x))" using tag_before_longest[of t "rev x"] by simp
    with e have "t = []" by simp
    with t(1) show False by (simp add: valid_tag_def)
  qed
next
  assume n: "\<not> (\<exists>t. valid_tag t \<and> suffix t x)"
  show "tag_before (rev x) = []"
  proof (rule ccontr)
    assume ne: "tag_before (rev x) \<noteq> []"
    then have "valid_tag (tag_before (rev x))" by (rule tag_before_valid)
    moreover have "suffix (tag_before (rev x)) x" using tag_before_suffix[of "rev x"] by simp
    ultimately show False using n by blast
  qed
qed

lemma tag_before_eq:
  assumes "valid_tag t"
    and "\<forall>t'. valid_tag t' \<and> suffix t' (pre @ t) \<longrightarrow> length t' \<le> length t"
  shows "tag_before (rev (pre @ t)) = t"
proof -
  let ?b = "tag_before (rev (pre @ t))"
  have st: "suffix t (pre @ t)" by (simp add: suffix_def)
  then have s1: "suffix t ?b" using tag_before_longest[OF assms(1), of "rev (pre @ t)"] by simp
  then have "?b \<noteq> []" using assms(1) by (auto simp: valid_tag_def)
  then have "valid_tag ?b" by (rule tag_before_valid)
  moreover have "suffix ?b (pre @ t)" using tag_before_suffix[of "rev (pre @ t)"] by simp
  ultimately have "length ?b \<le> length t" using assms(2) by blast
  with s1 show ?thesis by (metis suffix_length_le le_antisym suffix_def append_eq_append_conv append_self_conv2 length_append add_diff_cancel_right' length_0_conv)
qed

subsection \<open>The last envelope of a text\<close>

lemma find_last_bar_Some:
  "find_last_bar r acc = Some (t, p) \<Longrightarrow>
   \<exists>r1 r2. r = r1 @ CHR ''|'' # r2 \<and> p = rev r1 @ acc \<and> t = tag_before r2 \<and> t \<noteq> []
     \<and> (\<forall>a b. r1 = a @ CHR ''|'' # b \<longrightarrow> tag_before (b @ CHR ''|'' # r2) = [])"
proof (induction r arbitrary: acc)
  case Nil
  then show ?case by simp
next
  case (Cons c r)
  show ?case
  proof (cases "c = CHR ''|'' \<and> tag_before r \<noteq> []")
    case True
    with Cons.prems have "t = tag_before r" "p = acc" by simp_all
    with True have "c # r = [] @ CHR ''|'' # r \<and> p = rev [] @ acc \<and> t = tag_before r \<and> t \<noteq> []
        \<and> (\<forall>a b. [] = a @ CHR ''|'' # b \<longrightarrow> tag_before (b @ CHR ''|'' # r) = [])"
      by simp
    then show ?thesis by blast
  next
    case False
    with Cons.prems have "find_last_bar r (c # acc) = Some (t, p)" by auto
    from Cons.IH[OF this] obtain r1 r2 where
      r: "r = r1 @ CHR ''|'' # r2" and p: "p = rev r1 @ c # acc" and t: "t = tag_before r2" "t \<noteq> []"
      and l: "\<forall>a b. r1 = a @ CHR ''|'' # b \<longrightarrow> tag_before (b @ CHR ''|'' # r2) = []"
      by blast
    have l': "\<forall>a b. c # r1 = a @ CHR ''|'' # b \<longrightarrow> tag_before (b @ CHR ''|'' # r2) = []"
    proof (intro allI impI)
      fix a b assume e: "c # r1 = a @ CHR ''|'' # b"
      show "tag_before (b @ CHR ''|'' # r2) = []"
      proof (cases a)
        case Nil
        with e have "c = CHR ''|''" "b = r1" by simp_all
        with False r show ?thesis by simp
      next
        case (Cons x a')
        with e have "r1 = a' @ CHR ''|'' # b" by simp
        with l show ?thesis by blast
      qed
    qed
    have "c # r = (c # r1) @ CHR ''|'' # r2 \<and> p = rev (c # r1) @ acc" using r p by simp
    with t l' show ?thesis by blast
  qed
qed

lemma find_last_bar_intro:
  "tag_before r2 \<noteq> [] \<Longrightarrow>
   \<forall>a b. r1 = a @ CHR ''|'' # b \<longrightarrow> tag_before (b @ CHR ''|'' # r2) = [] \<Longrightarrow>
   find_last_bar (r1 @ CHR ''|'' # r2) acc = Some (tag_before r2, rev r1 @ acc)"
proof (induction r1 arbitrary: acc)
  case Nil
  then show ?case by simp
next
  case (Cons c r1)
  have "tag_before (r1 @ CHR ''|'' # r2) = [] \<or> c \<noteq> CHR ''|''"
    using Cons.prems(2) by (cases "c = CHR ''|''") auto
  then have step: "find_last_bar ((c # r1) @ CHR ''|'' # r2) acc
      = find_last_bar (r1 @ CHR ''|'' # r2) (c # acc)"
    by auto
  have "\<forall>a b. r1 = a @ CHR ''|'' # b \<longrightarrow> tag_before (b @ CHR ''|'' # r2) = []"
  proof (intro allI impI)
    fix a b assume "r1 = a @ CHR ''|'' # b"
    then have "c # r1 = (c # a) @ CHR ''|'' # b" by simp
    with Cons.prems(2) show "tag_before (b @ CHR ''|'' # r2) = []" by blast
  qed
  from Cons.IH[OF Cons.prems(1) this, of "c # acc"] step show ?case by simp
qed

lemma find_last_bar_exists:
  "tag_before r2 \<noteq> [] \<Longrightarrow> find_last_bar (r1 @ CHR ''|'' # r2) acc \<noteq> None"
  by (induction r1 arbitrary: acc) auto

text \<open>The text before the last dollar sign, and the text after it.\<close>

lemma last_dollar:
  assumes "CHR ''$'' \<in> set s"
  shows "\<exists>body post. s = body @ CHR ''$'' # post \<and> CHR ''$'' \<notin> set post
           \<and> dropWhile (\<lambda>c. c \<noteq> CHR ''$'') (rev s) = CHR ''$'' # rev body"
proof -
  let ?P = "\<lambda>c. c \<noteq> CHR ''$''"
  let ?d = "dropWhile ?P (rev s)"
  have ne: "?d \<noteq> []" using assms by (auto simp: dropWhile_eq_Nil_conv)
  have "\<not> ?P (hd ?d)" using ne by (rule hd_dropWhile)
  then have hd: "hd ?d = CHR ''$''" by simp
  from ne obtain rb where d: "?d = CHR ''$'' # rb" using hd by (cases ?d) auto
  have "rev s = takeWhile ?P (rev s) @ ?d" by simp
  then have "s = rev ?d @ rev (takeWhile ?P (rev s))" by (metis rev_append rev_rev_ident)
  then have "s = rev rb @ CHR ''$'' # rev (takeWhile ?P (rev s))" by (simp add: d)
  moreover have "CHR ''$'' \<notin> set (rev (takeWhile ?P (rev s)))" by (auto dest: set_takeWhileD)
  moreover have "?d = CHR ''$'' # rev (rev rb)" by (simp add: d)
  ultimately show ?thesis by blast
qed

lemma dropWhile_last_dollar:
  "CHR ''$'' \<notin> set post \<Longrightarrow>
   dropWhile (\<lambda>c. c \<noteq> CHR ''$'') (rev (body @ CHR ''$'' # post)) = CHR ''$'' # rev body"
proof -
  assume "CHR ''$'' \<notin> set post"
  then have "\<And>x. x \<in> set (rev post) \<Longrightarrow> x \<noteq> CHR ''$''" by auto
  then have "dropWhile (\<lambda>c. c \<noteq> CHR ''$'') (rev post @ CHR ''$'' # rev body) = dropWhile (\<lambda>c. c \<noteq> CHR ''$'') (CHR ''$'' # rev body)"
    by (rule dropWhile_append2)
  then show ?thesis by simp
qed

lemma last_envelope_Some:
  assumes "last_envelope s = Some (t, p)"
  shows "\<exists>pre post. s = pre @ t @ ''|'' @ p @ ''$'' @ post \<and> valid_tag t \<and> CHR ''$'' \<notin> set post
          \<and> (\<forall>p1 p2 t'. p = p1 @ ''|'' @ p2 \<and> valid_tag t' \<longrightarrow> \<not> suffix t' (pre @ t @ ''|'' @ p1))
          \<and> (\<forall>t'. valid_tag t' \<and> suffix t' (pre @ t) \<longrightarrow> length t' \<le> length t)"
proof -
  have ds: "CHR ''$'' \<in> set s"
  proof (rule ccontr)
    assume "CHR ''$'' \<notin> set s"
    then have "dropWhile (\<lambda>c. c \<noteq> CHR ''$'') (rev s) = []" by (auto simp: dropWhile_eq_Nil_conv)
    with assms show False by (simp add: last_envelope_def)
  qed
  from last_dollar[OF ds] obtain body post where s: "s = body @ CHR ''$'' # post"
    and post: "CHR ''$'' \<notin> set post"
    and d: "dropWhile (\<lambda>c. c \<noteq> CHR ''$'') (rev s) = CHR ''$'' # rev body" by blast
  from assms d have "find_last_bar (rev body) [] = Some (t, p)" by (simp add: last_envelope_def)
  from find_last_bar_Some[OF this] obtain r1 r2 where
    rb: "rev body = r1 @ CHR ''|'' # r2" and p: "p = rev r1" and t: "t = tag_before r2" "t \<noteq> []"
    and l: "\<forall>a b. r1 = a @ CHR ''|'' # b \<longrightarrow> tag_before (b @ CHR ''|'' # r2) = []"
    by auto
  from rb have body: "body = rev r2 @ CHR ''|'' # rev r1" by (metis rev_append rev.simps(2) rev_rev_ident append_Cons append_Nil append_assoc)
  have "suffix t (rev r2)" using t(1) tag_before_suffix by simp
  then obtain pre where pre: "rev r2 = pre @ t" unfolding suffix_def by blast
  have vt: "valid_tag t" using t tag_before_valid by simp
  have s': "s = pre @ t @ ''|'' @ p @ ''$'' @ post" using s body pre p by simp
  have last: "\<forall>p1 p2 t'. p = p1 @ ''|'' @ p2 \<and> valid_tag t' \<longrightarrow> \<not> suffix t' (pre @ t @ ''|'' @ p1)"
  proof (intro allI impI)
    fix p1 p2 t' assume a: "p = p1 @ ''|'' @ p2 \<and> valid_tag t'"
    then have "r1 = rev p2 @ CHR ''|'' # rev p1" using p by (metis rev_append rev.simps(2) rev_rev_ident append_Cons append_Nil append_assoc)
    with l have "tag_before (rev p1 @ CHR ''|'' # r2) = []" by blast
    moreover have "rev p1 @ CHR ''|'' # r2 = rev (pre @ t @ ''|'' @ p1)"
      using pre by (metis rev_append rev.simps(2) rev_rev_ident append_Cons append_Nil append_assoc)
    ultimately have "tag_before (rev (pre @ t @ ''|'' @ p1)) = []" by simp
    then show "\<not> suffix t' (pre @ t @ ''|'' @ p1)" using a tag_before_Nil_iff by blast
  qed
  have longest: "\<forall>t'. valid_tag t' \<and> suffix t' (pre @ t) \<longrightarrow> length t' \<le> length t"
  proof (intro allI impI)
    fix t' assume a: "valid_tag t' \<and> suffix t' (pre @ t)"
    then have "suffix t' (rev r2)" using pre by simp
    with a have "suffix t' (tag_before r2)" using tag_before_longest by blast
    then show "length t' \<le> length t" using t(1) by (simp add: suffix_length_le)
  qed
  from s' vt post last longest show ?thesis by blast
qed

lemma last_envelope_intro:
  assumes "valid_tag t" and "CHR ''$'' \<notin> set post"
    and "\<forall>p1 p2 t'. p = p1 @ ''|'' @ p2 \<and> valid_tag t' \<longrightarrow> \<not> suffix t' (pre @ t @ ''|'' @ p1)"
    and "\<forall>t'. valid_tag t' \<and> suffix t' (pre @ t) \<longrightarrow> length t' \<le> length t"
  shows "last_envelope (pre @ t @ ''|'' @ p @ ''$'' @ post) = Some (t, p)"
proof -
  let ?body = "pre @ t @ ''|'' @ p"
  have "dropWhile (\<lambda>c. c \<noteq> CHR ''$'') (rev (?body @ CHR ''$'' # post)) = CHR ''$'' # rev ?body"
    using assms(2) by (rule dropWhile_last_dollar)
  then have le: "last_envelope (pre @ t @ ''|'' @ p @ ''$'' @ post) = find_last_bar (rev ?body) []"
    by (simp add: last_envelope_def)
  have tb: "tag_before (rev (pre @ t)) = t" using assms(1,4) by (rule tag_before_eq)
  have ne: "tag_before (rev (pre @ t)) \<noteq> []" using tb assms(1) by (auto simp: valid_tag_def)
  have l: "\<forall>a b. rev p = a @ CHR ''|'' # b \<longrightarrow> tag_before (b @ CHR ''|'' # rev (pre @ t)) = []"
  proof (intro allI impI)
    fix a b assume e: "rev p = a @ CHR ''|'' # b"
    then have "p = rev b @ ''|'' @ rev a" by (metis rev_append rev.simps(2) rev_rev_ident append_Cons append_Nil append_assoc)
    with assms(3) have "\<forall>t'. valid_tag t' \<longrightarrow> \<not> suffix t' (pre @ t @ ''|'' @ rev b)" by blast
    then have "tag_before (rev (pre @ t @ ''|'' @ rev b)) = []" using tag_before_Nil_iff by blast
    then show "tag_before (b @ CHR ''|'' # rev (pre @ t)) = []" by simp
  qed
  have "rev ?body = rev p @ CHR ''|'' # rev (pre @ t)" by simp
  then have "find_last_bar (rev ?body) [] = Some (tag_before (rev (pre @ t)), rev (rev p) @ [])"
    using find_last_bar_intro[OF ne l, of "[]"] by simp
  with le tb show ?thesis by simp
qed

lemma last_envelope_None_iff: "last_envelope s = None \<longleftrightarrow> \<not> envelope_in s"
proof
  assume n: "last_envelope s = None"
  show "\<not> envelope_in s"
  proof
    assume "envelope_in s"
    then obtain pre t p post where s: "s = pre @ t @ ''|'' @ p @ ''$'' @ post" and vt: "valid_tag t"
      unfolding envelope_in_def by blast
    then have "CHR ''$'' \<in> set s" by simp
    from last_dollar[OF this] obtain body post' where s2: "s = body @ CHR ''$'' # post'"
      and np: "CHR ''$'' \<notin> set post'"
      and d: "dropWhile (\<lambda>c. c \<noteq> CHR ''$'') (rev s) = CHR ''$'' # rev body" by blast
    have "length (pre @ t @ ''|'' @ p) \<le> length body"
    proof (rule ccontr)
      assume "\<not> length (pre @ t @ ''|'' @ p) \<le> length body"
      then have lt: "length body < length (pre @ t @ ''|'' @ p)" by simp
      have "s ! length (pre @ t @ ''|'' @ p) = CHR ''$''" unfolding s
        by (metis append_assoc nth_append_length append_Cons append_Nil)
      moreover have "s ! length (pre @ t @ ''|'' @ p) = post' ! (length (pre @ t @ ''|'' @ p) - Suc (length body))"
        using lt unfolding s2 by (simp add: nth_append nth_Cons')
      moreover have "length (pre @ t @ ''|'' @ p) - Suc (length body) < length post'"
      proof -
        have "length s = length body + Suc (length post')" unfolding s2 by simp
        moreover have "length s = length (pre @ t @ ''|'' @ p) + Suc (length post)" unfolding s by simp
        ultimately show ?thesis using lt by linarith
      qed
      ultimately have "CHR ''$'' \<in> set post'" by (metis nth_mem)
      with np show False by simp
    qed
    moreover have "take (length body) s = body" unfolding s2 by simp
    moreover have "take (length (pre @ t @ ''|'' @ p)) s = pre @ t @ ''|'' @ p" unfolding s
      by (metis append_assoc append_eq_conv_conj)
    ultimately have "\<exists>rest. body = (pre @ t @ ''|'' @ p) @ rest"
      by (metis append_take_drop_id take_take min.absorb2 min.commute)
    then obtain rest where "body = pre @ t @ ''|'' @ (p @ rest)" by auto
    then have rb: "rev body = rev (p @ rest) @ CHR ''|'' # rev (pre @ t)" by simp
    have "suffix t (pre @ t)" by (simp add: suffix_def)
    then have "tag_before (rev (pre @ t)) \<noteq> []" using vt tag_before_Nil_iff by blast
    then have "find_last_bar (rev body) [] \<noteq> None" unfolding rb by (rule find_last_bar_exists)
    with n d show False by (simp add: last_envelope_def)
  qed
next
  assume ne: "\<not> envelope_in s"
  show "last_envelope s = None"
  proof (rule ccontr)
    assume "last_envelope s \<noteq> None"
    then obtain t p where "last_envelope s = Some (t, p)" by auto
    from last_envelope_Some[OF this] have "envelope_in s" unfolding envelope_in_def by blast
    with ne show False by simp
  qed
qed

lemma valid_suffix_after_bar:
  assumes "valid_tag t'" and "suffix t' (x @ ''|'' @ p1)"
  shows "suffix t' p1"
proof -
  from assms(2) have "suffix t' ((x @ ''|'') @ p1)" by simp
  then have "suffix t' p1 \<or> (\<exists>us. t' = us @ p1 \<and> suffix us (x @ ''|''))"
    by (simp only: suffix_append)
  then have "suffix t' p1 \<or> (\<exists>us. us \<noteq> [] \<and> suffix us (x @ ''|'') \<and> t' = us @ p1)"
    by (metis append_Nil suffix_order.refl)
  then show ?thesis
  proof
    assume "suffix t' p1" then show ?thesis .
  next
    assume "\<exists>us. us \<noteq> [] \<and> suffix us (x @ ''|'') \<and> t' = us @ p1"
    then obtain us where us: "us \<noteq> []" "suffix us (x @ ''|'')" "t' = us @ p1" by blast
    from us(1,2) have "last us = CHR ''|''" by (auto simp: suffix_def) (metis last_appendR last_snoc)
    with us(1) have "CHR ''|'' \<in> set us" by (metis last_in_set)
    with us(3) have "CHR ''|'' \<in> set t'" by simp
    moreover have "\<forall>c\<in>set t'. tag_char c" using valid_tag_chars[OF assms(1)] by (simp add: list_all_iff)
    ultimately show ?thesis using bar_not_tag_char by blast
  qed
qed

lemma deserialize_by_envelope:
  "last_envelope s = Some (tag, payload) \<Longrightarrow>
   deserialize f s =
     (case serializers f tag of
        None \<Rightarrow> (Inl (UnknownSerializerType tag), f)
      | Some ser \<Rightarrow>
          (case decode ser payload of
             Inl err \<Rightarrow> (Inl err, f)
           | Inr ctx \<Rightarrow> (Inr ctx, f\<lparr>current_type := tag\<rparr>)))"
  by (simp add: deserialize_def)

lemma valid_tag_dummy: "valid_tag ''dummy''"
  by (simp add: valid_tag_def tag_start_def tag_char_def)

lemma last_envelope_test_text:
  assumes "CHR ''|'' \<notin> set P2"
  shows "last_envelope (''dummy text dummy|'' @ P1 @ ''$ another dummy text dummy|'' @ P2 @ ''$'')
         = Some (''dummy'', P2)"
proof -
  let ?r2 = "rev (''dummy text dummy|'' @ P1 @ ''$ another dummy text dummy'')"
  have tb: "tag_before ?r2 = ''dummy''"
    by (simp add: tag_before_def tag_char_def tag_start_def)
  then have ne: "tag_before ?r2 \<noteq> []" by simp
  have l: "\<forall>a b. rev P2 = a @ CHR ''|'' # b \<longrightarrow> tag_before (b @ CHR ''|'' # ?r2) = []"
  proof (intro allI impI)
    fix a b assume "rev P2 = a @ CHR ''|'' # b"
    then have "CHR ''|'' \<in> set (rev P2)" by simp
    with assms show "tag_before (b @ CHR ''|'' # ?r2) = []" by simp
  qed
  have "find_last_bar (rev P2 @ CHR ''|'' # ?r2) [] = Some (tag_before ?r2, rev (rev P2) @ [])"
    using ne l by (rule find_last_bar_intro)
  then have "find_last_bar (rev P2 @ CHR ''|'' # ?r2) [] = Some (''dummy'', P2)"
    by (simp only: tb rev_rev_ident append_Nil2)
  then show ?thesis by (simp add: last_envelope_def)
qed

subsection \<open>The objects of the tests, evaluated\<close>

lemma dummy_declares: "declares_AbstractSerializer DummySerializer"
  by (simp add: DummySerializer_def)

lemma fake_declares: "\<not> declares_AbstractSerializer FakeSerializer"
  by (simp add: FakeSerializer_def)

lemma dummy_facade_simps:
  "serializers dummy_facade ''dummy'' = Some DummySerializer"
  "serializers dummy_facade ''json'' = Some JsonSerializer"
  "current_type dummy_facade = ''json''"
  by (simp_all add: dummy_facade_def register_def dummy_declares valid_tag_dummy fresh_facade_def)

lemma dummy_codec_simps:
  "encode DummySerializer object_context = ''serialized''"
  "encode DummySerializer object2_context = '' serialized text''"
  "encode DummySerializer demo_context = ''serialized''"
  "decode DummySerializer ''serialized'' = Inr (JObject object_context)"
  "decode DummySerializer '' serialized text'' = Inr (JObject object2_context)"
  by (simp_all add: DummySerializer_def object_context_def object2_context_def demo_context_def)

lemma last_envelope_examples:
  \<open>last_envelope ''dummy|serialized$'' = Some (''dummy'', ''serialized'')\<close>
  \<open>last_envelope ''{"my_key": "my_val"}'' = None\<close>
  \<open>last_envelope ''json|{"my_key": "my_val"}$'' = Some (''json'', ''{"my_key": "my_val"}'')\<close>
  \<open>last_envelope ''json|{"a|b": 1}$'' = Some (''a'', ''b": 1}'')\<close>
  by (simp_all add: last_envelope_def tag_before_def tag_char_def tag_start_def)

lemma json_codec_simps:
  \<open>encode JsonSerializer object_context = ''{"my_key": "my_val"}''\<close>
  \<open>decode JsonSerializer ''{"my_key": "my_val"}'' = Inr (JObject object_context)\<close>
  \<open>encode JsonSerializer bar_context = ''{"a|b": 1}''\<close>
  by (simp_all add: JsonSerializer_def object_context_def bar_context_def quote_string_def
      escape_char_def join_comma_def json_loads_ref_def skip_ws_def ws_char_def dict_set_def
      show_int_def show_nat.simps)

text \<open>
  A payload with a bar right after a letter: the last envelope of the text starts inside
  the payload.
\<close>

lemma bar_after_tag_in_payload:
  \<open>serialize fresh_facade bar_context None = (Inr ''json|{"a|b": 1}$'', fresh_facade)
   \<and> deserialize fresh_facade ''json|{"a|b": 1}$'' = (Inl (UnknownSerializerType ''a''), fresh_facade)\<close>
proof -
  have f: "serializers fresh_facade ''json'' = Some JsonSerializer"
    "serializers fresh_facade ''a'' = None" "current_type fresh_facade = ''json''"
    by (simp_all add: fresh_facade_def)
  show ?thesis
    by (simp add: serialize_def deserialize_def Let_def f last_envelope_examples json_codec_simps)
qed

lemma register_current_type: "current_type (snd (register f tag arg)) = current_type f"
  by (simp add: register_def Let_def)

lemma serialize_state: "snd (serialize f ctx type) = f"
  by (simp add: serialize_def Let_def split: option.splits)

lemma deserialize_failure: "fst (deserialize f s) = Inl err \<Longrightarrow> snd (deserialize f s) = f"
  by (auto simp: deserialize_def split: option.splits sum.splits)

lemma deserialize_success:
  "fst (deserialize f s) = Inr c \<Longrightarrow>
   \<exists>tag payload. last_envelope s = Some (tag, payload) \<and> snd (deserialize f s) = f\<lparr>current_type := tag\<rparr>"
  by (auto simp: deserialize_def split: option.splits sum.splits)

lemma facade_step_current_type:
  "current_type (facade_step f c)
   = (case deserialized_tag f c of None \<Rightarrow> current_type f | Some t \<Rightarrow> t)"
proof (cases c)
  case (CallRegister tag arg)
  then show ?thesis by (simp add: register_current_type)
next
  case (CallSerialize ctx type)
  then show ?thesis by (simp add: serialize_state)
next
  case (CallDeserialize s)
  show ?thesis
  proof (cases "fst (deserialize f s)")
    case (Inl err)
    then have "snd (deserialize f s) = f" by (rule deserialize_failure)
    with Inl CallDeserialize show ?thesis
      by (cases "deserialize f s") auto
  next
    case (Inr v)
    from deserialize_success[OF this] obtain tag payload where
      "last_envelope s = Some (tag, payload)" "snd (deserialize f s) = f\<lparr>current_type := tag\<rparr>" by blast
    with Inr CallDeserialize show ?thesis
      by (cases "deserialize f s") auto
  qed
next
  case CallGetType
  then show ?thesis by simp
qed

lemma foldl_facade_step_current_type:
  "current_type (foldl facade_step f calls) = last_deserialized f (current_type f) calls"
  by (induction calls arbitrary: f) (simp_all add: facade_step_current_type)

lemma register_all_current_type:
  "register_all f seeds = Inr f' \<Longrightarrow> current_type f' = current_type f"
proof (induction seeds arbitrary: f)
  case Nil
  then show ?case by simp
next
  case (Cons seed seeds)
  obtain tag arg where seed: "seed = (tag, arg)" by (cases seed)
  obtain r f1 where reg: "register f tag arg = (r, f1)" by (cases "register f tag arg")
  with Cons.prems seed obtain u where "r = Inr u" and ra: "register_all f1 seeds = Inr f'"
    by (cases r) auto
  from Cons.IH[OF ra] have "current_type f' = current_type f1" .
  moreover have "current_type f1 = current_type f"
    using register_current_type[of f tag arg] reg by simp
  ultimately show ?case by simp
qed

lemma deserialize_dummy_examples:
  "deserialize dummy_facade ''dummy|serialized$''
     = (Inr (JObject object_context), dummy_facade\<lparr>current_type := ''dummy''\<rparr>)"
  \<open>deserialize (dummy_facade\<lparr>current_type := ''dummy''\<rparr>) ''{"my_key": "my_val"}''
     = (Inl (BadSerializedStringFormat bad_format_message), dummy_facade\<lparr>current_type := ''dummy''\<rparr>)\<close>
  by (simp_all add: deserialize_def last_envelope_examples dummy_facade_simps dummy_codec_simps)

lemma invalid_test_tags:
  "\<not> valid_tag ''9type''" "\<not> valid_tag ''-type''" "\<not> valid_tag ''.type''"
  "\<not> valid_tag ''typ|e''" "\<not> valid_tag ''typ:e''" "\<not> valid_tag ''typ!e''"
  by (simp_all add: valid_tag_def tag_start_def tag_char_def)

lemma valid_test_tags:
  "valid_tag ''v_a-l.idTyPe0123456789''" "valid_tag ''_type''" "valid_tag ''Type''"
  by (simp_all add: valid_tag_def tag_start_def tag_char_def)

subsection \<open>Deserialization\<close>

text \<open>
  C5.  A text without an envelope makes \<open>deserialize\<close> fail with
  \<^verbatim>\<open>BadSerializedStringFormat\<close>, whose message names the form \<^verbatim>\<open>type|payload$\<close>.  A text
  with an envelope is decoded at its last occurrence: the text splits into a prefix, a
  valid tag, a bar, a payload, a dollar sign and a rest without dollar sign, no bar of
  the payload comes right after a valid tag, no longer valid tag ends at the bar, and the
  outcome is that of the tag's serializer on that payload.  So for the text
  \<^verbatim>\<open>dummy text dummy|P1$ another dummy text dummy|P2$\<close>, with a payload \<^verbatim>\<open>P2\<close> free of
  bars, \<open>deserialize\<close> returns what the serializer registered as \<^verbatim>\<open>dummy\<close> decodes
  from \<^verbatim>\<open>P2\<close>.
\<close>

theorem deserialize_last_envelope:
  "(\<not> envelope_in s \<longrightarrow> deserialize f s = (Inl (BadSerializedStringFormat bad_format_message), f))
   \<and> (envelope_in s \<longrightarrow>
        (\<exists>pre tag payload post.
           s = pre @ tag @ ''|'' @ payload @ ''$'' @ post \<and> valid_tag tag
           \<and> CHR ''$'' \<notin> set post
           \<and> (\<forall>p1 p2 t'. payload = p1 @ ''|'' @ p2 \<and> valid_tag t'
                \<longrightarrow> \<not> suffix t' (pre @ tag @ ''|'' @ p1))
           \<and> (\<forall>t'. valid_tag t' \<and> suffix t' (pre @ tag) \<longrightarrow> length t' \<le> length tag)
           \<and> deserialize f s =
               (case serializers f tag of
                  None \<Rightarrow> (Inl (UnknownSerializerType tag), f)
                | Some ser \<Rightarrow>
                    (case decode ser payload of
                       Inl err \<Rightarrow> (Inl err, f)
                     | Inr ctx \<Rightarrow> (Inr ctx, f\<lparr>current_type := tag\<rparr>)))))
   \<and> (serializers f ''dummy'' = Some ser \<and> CHR ''|'' \<notin> set P2 \<longrightarrow>
        fst (deserialize f (''dummy text dummy|'' @ P1 @ ''$ another dummy text dummy|'' @ P2 @ ''$''))
          = decode ser P2)
   \<and> prefix ''Serialized string should be of the form'' bad_format_message
   \<and> suffix ''type|payload$'' bad_format_message"
proof (intro conjI impI)
  assume "\<not> envelope_in s"
  then have "last_envelope s = None" by (simp add: last_envelope_None_iff)
  then show "deserialize f s = (Inl (BadSerializedStringFormat bad_format_message), f)"
    by (simp add: deserialize_def)
next
  assume "envelope_in s"
  then have "last_envelope s \<noteq> None" by (simp add: last_envelope_None_iff)
  then obtain tag payload where le: "last_envelope s = Some (tag, payload)" by auto
  from last_envelope_Some[OF le] deserialize_by_envelope[OF le, of f]
  show "\<exists>pre tag payload post.
           s = pre @ tag @ ''|'' @ payload @ ''$'' @ post \<and> valid_tag tag
           \<and> CHR ''$'' \<notin> set post
           \<and> (\<forall>p1 p2 t'. payload = p1 @ ''|'' @ p2 \<and> valid_tag t'
                \<longrightarrow> \<not> suffix t' (pre @ tag @ ''|'' @ p1))
           \<and> (\<forall>t'. valid_tag t' \<and> suffix t' (pre @ tag) \<longrightarrow> length t' \<le> length tag)
           \<and> deserialize f s =
               (case serializers f tag of
                  None \<Rightarrow> (Inl (UnknownSerializerType tag), f)
                | Some ser \<Rightarrow>
                    (case decode ser payload of
                       Inl err \<Rightarrow> (Inl err, f)
                     | Inr ctx \<Rightarrow> (Inr ctx, f\<lparr>current_type := tag\<rparr>)))"
    by blast
next
  assume a: "serializers f ''dummy'' = Some ser \<and> CHR ''|'' \<notin> set P2"
  then have "CHR ''|'' \<notin> set P2" by simp
  then have "last_envelope (''dummy text dummy|'' @ P1 @ ''$ another dummy text dummy|'' @ P2 @ ''$'')
         = Some (''dummy'', P2)" by (rule last_envelope_test_text)
  from deserialize_by_envelope[OF this, of f] a
  show "fst (deserialize f (''dummy text dummy|'' @ P1 @ ''$ another dummy text dummy|'' @ P2 @ ''$''))
          = decode ser P2"
    by (simp split: sum.splits)
next
  show "prefix ''Serialized string should be of the form'' bad_format_message"
    by (simp add: bad_format_message_def)
next
  show "suffix ''type|payload$'' bad_format_message"
    by (simp add: bad_format_message_def suffix_def)
qed

theorem deserialize_last_envelope_witness:
  \<open>\<not> envelope_in ''{"my_key": "my_val"}''
   \<and> deserialize fresh_facade ''{"my_key": "my_val"}''
       = (Inl (BadSerializedStringFormat ''Serialized string should be of the form type|payload$''),
          fresh_facade)
   \<and> envelope_in ''dummy|serialized$''
   \<and> serializers dummy_facade ''dummy'' = Some DummySerializer
   \<and> CHR ''|'' \<notin> set '' serialized text''
   \<and> fst (deserialize dummy_facade
        (''dummy text dummy|'' @ ''serialized'' @ ''$ another dummy text dummy|''
           @ '' serialized text'' @ ''$''))
       = Inr (JObject object2_context)\<close>
proof -
  have h1: \<open>\<not> envelope_in ''{"my_key": "my_val"}''\<close>
    using last_envelope_None_iff last_envelope_examples(2) by blast
  have h2: "envelope_in ''dummy|serialized$''"
    using last_envelope_None_iff[of "''dummy|serialized$''"] last_envelope_examples(1) by simp
  have h3: "serializers dummy_facade ''dummy'' = Some DummySerializer \<and> CHR ''|'' \<notin> set '' serialized text''"
    by (simp add: dummy_facade_simps)
  note a = deserialize_last_envelope[where s=\<open>''{"my_key": "my_val"}''\<close> and f=fresh_facade]
  note b = deserialize_last_envelope[where f=dummy_facade and ser=DummySerializer
      and ?P1.0="''serialized''" and ?P2.0="'' serialized text''"]
  from a h1 have r1: \<open>deserialize fresh_facade ''{"my_key": "my_val"}''
       = (Inl (BadSerializedStringFormat bad_format_message), fresh_facade)\<close> by blast
  from b h3 have r2: "fst (deserialize dummy_facade
        (''dummy text dummy|'' @ ''serialized'' @ ''$ another dummy text dummy|''
           @ '' serialized text'' @ ''$''))
       = decode DummySerializer '' serialized text''" by blast
  from h1 h2 h3 r1 r2 show ?thesis
    by (simp only: dummy_codec_simps bad_format_message_def) simp
qed

subsection \<open>Round trip\<close>

text \<open>
  C2, as the model has it.  For a context, a tag that matches the grammar and the
  serializer registered under it: if the serializer decodes its own payload for the
  context back to the context, and no bar of that payload comes right after a valid tag,
  then \<open>serialize\<close> with that tag gives the envelope and \<open>deserialize\<close> of the envelope
  on the same facade returns the context.
\<close>

theorem facade_round_trip:
  assumes "serializers f tag = Some ser"
    and "valid_tag tag"
    and "decode ser (encode ser ctx) = Inr (JObject ctx)"
    and "\<forall>p1 p2 t'. encode ser ctx = p1 @ ''|'' @ p2 \<and> valid_tag t' \<longrightarrow> \<not> suffix t' p1"
  shows "serialize f ctx (Some tag) = (Inr (tag @ ''|'' @ encode ser ctx @ ''$''), f)
         \<and> deserialize f (tag @ ''|'' @ encode ser ctx @ ''$'')
             = (Inr (JObject ctx), f\<lparr>current_type := tag\<rparr>)"
proof -
  let ?p = "encode ser ctx"
  have l: "\<forall>p1 p2 t'. ?p = p1 @ ''|'' @ p2 \<and> valid_tag t' \<longrightarrow> \<not> suffix t' ([] @ tag @ ''|'' @ p1)"
  proof (intro allI impI)
    fix p1 p2 t' assume a: "?p = p1 @ ''|'' @ p2 \<and> valid_tag t'"
    show "\<not> suffix t' ([] @ tag @ ''|'' @ p1)"
    proof
      assume "suffix t' ([] @ tag @ ''|'' @ p1)"
      then have "suffix t' (tag @ ''|'' @ p1)" by simp
      with a have "suffix t' p1" using valid_suffix_after_bar by blast
      with a assms(4) show False by blast
    qed
  qed
  have g: "\<forall>t'. valid_tag t' \<and> suffix t' ([] @ tag) \<longrightarrow> length t' \<le> length tag"
    by (simp add: suffix_length_le)
  have "CHR ''$'' \<notin> set []" by simp
  from last_envelope_intro[OF assms(2) this l g]
  have "last_envelope (tag @ ''|'' @ ?p @ ''$'') = Some (tag, ?p)" by simp
  from deserialize_by_envelope[OF this, of f] assms(1,3)
  have "deserialize f (tag @ ''|'' @ ?p @ ''$'') = (Inr (JObject ctx), f\<lparr>current_type := tag\<rparr>)"
    by simp
  moreover have "serialize f ctx (Some tag) = (Inr (tag @ ''|'' @ ?p @ ''$''), f)"
    using assms(1) by (simp add: serialize_def)
  ultimately show ?thesis by simp
qed

theorem facade_round_trip_witness:
  \<open>serializers fresh_facade ''json'' = Some JsonSerializer
   \<and> valid_tag ''json''
   \<and> encode JsonSerializer object_context = ''{"my_key": "my_val"}''
   \<and> decode JsonSerializer ''{"my_key": "my_val"}'' = Inr (JObject object_context)
   \<and> CHR ''|'' \<notin> set ''{"my_key": "my_val"}''
   \<and> serialize fresh_facade object_context (Some ''json'')
       = (Inr ''json|{"my_key": "my_val"}$'', fresh_facade)
   \<and> deserialize fresh_facade ''json|{"my_key": "my_val"}$''
       = (Inr (JObject object_context), fresh_facade\<lparr>current_type := ''json''\<rparr>)\<close>
proof -
  have h1: "serializers fresh_facade ''json'' = Some JsonSerializer"
    by (simp add: fresh_facade_def)
  have h2: "valid_tag ''json''" by (simp add: valid_tag_def tag_start_def tag_char_def)
  have h3: "decode JsonSerializer (encode JsonSerializer object_context) = Inr (JObject object_context)"
    by (simp add: json_codec_simps)
  have nb: \<open>CHR ''|'' \<notin> set ''{"my_key": "my_val"}''\<close> by simp
  have h4: "\<forall>p1 p2 t'. encode JsonSerializer object_context = p1 @ ''|'' @ p2 \<and> valid_tag t'
      \<longrightarrow> \<not> suffix t' p1"
  proof (intro allI impI)
    fix p1 p2 t' assume "encode JsonSerializer object_context = p1 @ ''|'' @ p2 \<and> valid_tag t'"
    then have "CHR ''|'' \<in> set (encode JsonSerializer object_context)" by simp
    with nb show "\<not> suffix t' p1" by (simp add: json_codec_simps)
  qed
  from facade_round_trip[OF h1 h2 h3 h4] h1 h2 nb show ?thesis
    by (simp add: json_codec_simps)
qed

text \<open>
  C2 as it is stated fails: \<^verbatim>\<open>DummySerializer\<close> of the tests, registered as \<^verbatim>\<open>dummy\<close>,
  encodes every context without the key \<^verbatim>\<open>my_key2\<close> as \<^verbatim>\<open>serialized\<close> and decodes that
  payload to the first context of the tests, whatever the context was.
\<close>

theorem dummy_round_trip_fails:
  "serializers dummy_facade ''dummy'' = Some DummySerializer
   \<and> serialize dummy_facade demo_context (Some ''dummy'') = (Inr ''dummy|serialized$'', dummy_facade)
   \<and> fst (deserialize dummy_facade ''dummy|serialized$'') = Inr (JObject [(''my_key'', JString ''my_val'')])
   \<and> JObject [(''my_key'', JString ''my_val'')] \<noteq> JObject demo_context"
proof -
  have "JObject [(''my_key'', JString ''my_val'')] \<noteq> JObject demo_context"
    by (simp add: demo_context_def)
  moreover have "JObject object_context = JObject [(''my_key'', JString ''my_val'')]"
    by (simp add: object_context_def)
  ultimately show ?thesis
    by (simp add: serialize_def deserialize_def dummy_facade_simps dummy_codec_simps
        last_envelope_examples)
qed

subsection \<open>The current type\<close>

text \<open>
  C6.  \<open>get_type\<close> of a fresh facade, and of a facade constructed with seeds, is
  \<^verbatim>\<open>json\<close>.  \<open>serialize\<close> leaves the facade as it is, \<open>register\<close> leaves the current
  type as it is, and so does a \<open>deserialize\<close> that fails.  After a \<open>deserialize\<close> that
  succeeds the current type is the tag of the last envelope of its text.  Over any
  sequence of calls, \<open>get_type\<close> is the tag of the last successful \<open>deserialize\<close>, or
  what it was before if there was none.
\<close>

theorem current_type_tracking:
  "get_type fresh_facade = ''json''
   \<and> (SerializationFacade seeds = Inr f0 \<longrightarrow> get_type f0 = ''json'')
   \<and> snd (serialize f ctx type) = f
   \<and> get_type (snd (register f tag arg)) = get_type f
   \<and> (fst (deserialize f s) = Inl err \<longrightarrow> snd (deserialize f s) = f)
   \<and> (fst (deserialize f s) = Inr c \<longrightarrow>
        (\<exists>payload. last_envelope s = Some (get_type (snd (deserialize f s)), payload)))
   \<and> get_type (foldl facade_step f calls) = last_deserialized f (get_type f) calls"
proof (intro conjI impI)
  show "get_type fresh_facade = ''json''" by (simp add: get_type_def fresh_facade_def)
next
  assume "SerializationFacade seeds = Inr f0"
  then have "current_type f0 = current_type fresh_facade"
    unfolding SerializationFacade_def by (rule register_all_current_type)
  then show "get_type f0 = ''json''" by (simp add: get_type_def fresh_facade_def)
next
  show "snd (serialize f ctx type) = f" by (rule serialize_state)
next
  show "get_type (snd (register f tag arg)) = get_type f"
    by (simp add: get_type_def register_current_type)
next
  assume "fst (deserialize f s) = Inl err"
  then show "snd (deserialize f s) = f" by (rule deserialize_failure)
next
  assume "fst (deserialize f s) = Inr c"
  from deserialize_success[OF this]
  show "\<exists>payload. last_envelope s = Some (get_type (snd (deserialize f s)), payload)"
    by (auto simp: get_type_def)
next
  show "get_type (foldl facade_step f calls) = last_deserialized f (get_type f) calls"
    by (simp add: get_type_def foldl_facade_step_current_type)
qed

theorem current_type_tracking_witness:
  \<open>SerializationFacade [(''dummy'', Instance DummySerializer)] = Inr dummy_facade
   \<and> get_type dummy_facade = ''json''
   \<and> get_type (snd (serialize dummy_facade object_context (Some ''dummy''))) = ''json''
   \<and> fst (deserialize dummy_facade ''dummy|serialized$'') = Inr (JObject object_context)
   \<and> get_type (snd (deserialize dummy_facade ''dummy|serialized$'')) = ''dummy''
   \<and> fst (deserialize (dummy_facade\<lparr>current_type := ''dummy''\<rparr>) ''{"my_key": "my_val"}'')
       = Inl (BadSerializedStringFormat bad_format_message)
   \<and> get_type (snd (deserialize (dummy_facade\<lparr>current_type := ''dummy''\<rparr>) ''{"my_key": "my_val"}''))
       = ''dummy''
   \<and> get_type (foldl facade_step dummy_facade
        [CallSerialize object_context (Some ''dummy''), CallGetType,
         CallDeserialize ''dummy|serialized$'', CallDeserialize ''{"my_key": "my_val"}'',
         CallRegister ''9type'' (Instance DummySerializer), CallSerialize object_context None])
       = ''dummy''\<close>
proof -
  have c: "SerializationFacade [(''dummy'', Instance DummySerializer)] = Inr dummy_facade"
    by (simp add: SerializationFacade_def dummy_facade_def register_def dummy_declares valid_tag_dummy)
  have d1: "fst (deserialize dummy_facade ''dummy|serialized$'') = Inr (JObject object_context)"
    by (simp add: deserialize_dummy_examples)
  have d2: \<open>fst (deserialize (dummy_facade\<lparr>current_type := ''dummy''\<rparr>) ''{"my_key": "my_val"}'')
       = Inl (BadSerializedStringFormat bad_format_message)\<close>
    by (simp add: deserialize_dummy_examples)
  note a = current_type_tracking[where seeds="[(''dummy'', Instance DummySerializer)]"
      and ?f0.0=dummy_facade and f=dummy_facade and ctx=object_context and type="Some ''dummy''"
      and s="''dummy|serialized$''" and c="JObject object_context"]
  note b = current_type_tracking[where f="dummy_facade\<lparr>current_type := ''dummy''\<rparr>"
      and s=\<open>''{"my_key": "my_val"}''\<close> and err="BadSerializedStringFormat bad_format_message"]
  from a c have g0: "get_type dummy_facade = ''json''" by blast
  from a have "snd (serialize dummy_facade object_context (Some ''dummy'')) = dummy_facade" by blast
  with g0 have g1: "get_type (snd (serialize dummy_facade object_context (Some ''dummy''))) = ''json''"
    by simp
  from a d1 have "\<exists>payload. last_envelope ''dummy|serialized$''
      = Some (get_type (snd (deserialize dummy_facade ''dummy|serialized$'')), payload)" by blast
  then have g2: "get_type (snd (deserialize dummy_facade ''dummy|serialized$'')) = ''dummy''"
    by (simp add: last_envelope_examples)
  from b d2 have \<open>snd (deserialize (dummy_facade\<lparr>current_type := ''dummy''\<rparr>) ''{"my_key": "my_val"}'')
      = dummy_facade\<lparr>current_type := ''dummy''\<rparr>\<close> by blast
  then have g3: \<open>get_type (snd (deserialize (dummy_facade\<lparr>current_type := ''dummy''\<rparr>) ''{"my_key": "my_val"}''))
       = ''dummy''\<close> by (simp add: get_type_def)
  have g4: \<open>get_type (foldl facade_step dummy_facade
        [CallSerialize object_context (Some ''dummy''), CallGetType,
         CallDeserialize ''dummy|serialized$'', CallDeserialize ''{"my_key": "my_val"}'',
         CallRegister ''9type'' (Instance DummySerializer), CallSerialize object_context None])
       = ''dummy''\<close>
    by (simp add: serialize_state deserialize_dummy_examples register_def dummy_declares
        valid_tag_def tag_start_def get_type_def)
  from c g0 g1 d1 g2 d2 g3 g4 show ?thesis by blast
qed

subsection \<open>Registration\<close>

text \<open>
  C7.  \<open>register\<close> raises \<^verbatim>\<open>InvalidSerializerType\<close> for a tag that violates the grammar,
  given a serializer that declares the capability, and raises \<^verbatim>\<open>InvalidType\<close>, with a
  message that names \<^verbatim>\<open>AbstractSerializer\<close>, for an instance or class that does not
  declare the capability, whatever methods it has (when both are wrong, the exception is
  \<^verbatim>\<open>InvalidType\<close>).  Every failure leaves the facade as it was.
\<close>

theorem register_rejects:
  "(declares_AbstractSerializer (instantiate arg) \<and> \<not> valid_tag tag \<longrightarrow>
      register f tag arg = (Inl (InvalidSerializerType tag), f))
   \<and> (\<not> declares_AbstractSerializer (instantiate arg) \<longrightarrow>
      (\<exists>msg. register f tag arg = (Inl (InvalidType msg), f) \<and> contains msg ''AbstractSerializer''))
   \<and> (fst (register f tag arg) = Inl err \<longrightarrow>
      snd (register f tag arg) = f
      \<and> (\<not> declares_AbstractSerializer (instantiate arg) \<or> \<not> valid_tag tag))
   \<and> (declares_AbstractSerializer (instantiate arg) \<and> valid_tag tag \<longrightarrow>
      register f tag arg = (Inr (), f\<lparr>serializers := (serializers f)(tag \<mapsto> instantiate arg)\<rparr>))"
  by (auto simp: register_def Let_def)

theorem register_rejects_witness:
  "declares_AbstractSerializer (instantiate (Instance DummySerializer))
   \<and> \<not> valid_tag ''9type''
   \<and> register fresh_facade ''9type'' (Instance DummySerializer)
       = (Inl (InvalidSerializerType ''9type''), fresh_facade)
   \<and> \<not> valid_tag ''-type''
   \<and> register fresh_facade ''-type'' (Instance DummySerializer)
       = (Inl (InvalidSerializerType ''-type''), fresh_facade)
   \<and> \<not> valid_tag ''.type''
   \<and> register fresh_facade ''.type'' (Instance DummySerializer)
       = (Inl (InvalidSerializerType ''.type''), fresh_facade)
   \<and> \<not> valid_tag ''typ|e''
   \<and> register fresh_facade ''typ|e'' (Instance DummySerializer)
       = (Inl (InvalidSerializerType ''typ|e''), fresh_facade)
   \<and> \<not> valid_tag ''typ:e''
   \<and> register fresh_facade ''typ:e'' (Instance DummySerializer)
       = (Inl (InvalidSerializerType ''typ:e''), fresh_facade)
   \<and> \<not> valid_tag ''typ!e''
   \<and> register fresh_facade ''typ!e'' (Instance DummySerializer)
       = (Inl (InvalidSerializerType ''typ!e''), fresh_facade)
   \<and> \<not> declares_AbstractSerializer (instantiate (Class FakeSerializer))
   \<and> valid_tag ''fake''
   \<and> fst (register fresh_facade ''fake'' (Class FakeSerializer))
       = Inl (InvalidType ''serializer must implement AbstractSerializer'')
   \<and> snd (register fresh_facade ''fake'' (Class FakeSerializer)) = fresh_facade
   \<and> valid_tag ''Type''
   \<and> register fresh_facade ''Type'' (Instance DummySerializer)
       = (Inr (), fresh_facade\<lparr>serializers := (serializers fresh_facade)(''Type'' \<mapsto> DummySerializer)\<rparr>)"
proof -
  have d: "declares_AbstractSerializer (instantiate (Instance DummySerializer))"
    by (simp add: dummy_declares)
  have k: "\<not> declares_AbstractSerializer (instantiate (Class FakeSerializer))"
    by (simp add: fake_declares)
  have vf: "valid_tag ''fake''" by (simp add: valid_tag_def tag_start_def tag_char_def)
  note r = register_rejects[where f=fresh_facade and arg="Instance DummySerializer"]
  have t1: "register fresh_facade ''9type'' (Instance DummySerializer)
       = (Inl (InvalidSerializerType ''9type''), fresh_facade)"
    using r[where tag="''9type''"] d invalid_test_tags(1) by blast
  have t2: "register fresh_facade ''-type'' (Instance DummySerializer)
       = (Inl (InvalidSerializerType ''-type''), fresh_facade)"
    using r[where tag="''-type''"] d invalid_test_tags(2) by blast
  have t3: "register fresh_facade ''.type'' (Instance DummySerializer)
       = (Inl (InvalidSerializerType ''.type''), fresh_facade)"
    using r[where tag="''.type''"] d invalid_test_tags(3) by blast
  have t4: "register fresh_facade ''typ|e'' (Instance DummySerializer)
       = (Inl (InvalidSerializerType ''typ|e''), fresh_facade)"
    using r[where tag="''typ|e''"] d invalid_test_tags(4) by blast
  have t5: "register fresh_facade ''typ:e'' (Instance DummySerializer)
       = (Inl (InvalidSerializerType ''typ:e''), fresh_facade)"
    using r[where tag="''typ:e''"] d invalid_test_tags(5) by blast
  have t6: "register fresh_facade ''typ!e'' (Instance DummySerializer)
       = (Inl (InvalidSerializerType ''typ!e''), fresh_facade)"
    using r[where tag="''typ!e''"] d invalid_test_tags(6) by blast
  have t7: "register fresh_facade ''Type'' (Instance DummySerializer)
       = (Inr (), fresh_facade\<lparr>serializers := (serializers fresh_facade)(''Type'' \<mapsto> DummySerializer)\<rparr>)"
    using r[where tag="''Type''"] d valid_test_tags(3) by simp
  have f1: "fst (register fresh_facade ''fake'' (Class FakeSerializer))
       = Inl (InvalidType ''serializer must implement AbstractSerializer'')"
    by (simp add: register_def fake_declares)
  have f2: "snd (register fresh_facade ''fake'' (Class FakeSerializer)) = fresh_facade"
    using register_rejects[where f=fresh_facade and arg="Class FakeSerializer" and tag="''fake''"
        and err="InvalidType ''serializer must implement AbstractSerializer''"] f1 by blast
  from d k vf t1 t2 t3 t4 t5 t6 t7 f1 f2 invalid_test_tags valid_test_tags show ?thesis by blast
qed

end
